theory Spec2Isabelle
  imports Complex_Main "HOL-Library.Multiset"
begin

section \<open>The schema of app.py\<close>

text \<open>
  The three model classes and the association table of app.py, one record per table row.
  A column with \<^verbatim>\<open>nullable=False\<close> (or a primary key) holds a value, every other column
  holds an optional value, \<open>None\<close> being SQL's NULL.  Field names are the column names,
  prefixed with the class name: \<^verbatim>\<open>Order.shipped_date\<close> is \<open>Order_shipped_date\<close>.

  A \<^verbatim>\<open>db.DateTime\<close> value is a naive timestamp with microsecond resolution; it is
  modelled as the number of microseconds since 1970-01-01 00:00:00.  SQLite stores it
  as text of fixed layout, whose order is the order of these numbers.
\<close>

type_synonym datetime = int

record Customer =
  Customer_id :: int
  Customer_first_name :: string
  Customer_last_name :: string
  Customer_address :: string
  Customer_city :: string
  Customer_postcode :: string
  Customer_email :: string

record order_product =
  order_id :: int
  product_id :: int

record Order =
  Order_id :: int
  Order_order_date :: datetime
  Order_shipped_date :: "datetime option"
  Order_delivered_date :: "datetime option"
  Order_coupon_code :: "string option"
  Order_customer_id :: int

record Product =
  Product_id :: int
  Product_name :: string
  Product_price :: int

text \<open>
  The database behind \<^verbatim>\<open>db\<close>: the rows of each table, in storage order.
\<close>

record database =
  Customer_table :: "Customer list"
  Order_table :: "Order list"
  Product_table :: "Product list"
  order_product_table :: "order_product list"

definition empty_database :: database where
  "empty_database =
     \<lparr>Customer_table = [], Order_table = [], Product_table = [], order_product_table = []\<rparr>"

text \<open>
  The constraints the schema declares: the primary keys (the composite key of the
  association table included) and the two \<^verbatim>\<open>unique=True\<close> columns.  Foreign keys are
  declared, but SQLite does not enforce them unless asked to, and app.py does not ask.
\<close>

definition schema_constraints :: "database \<Rightarrow> bool" where
  "schema_constraints d \<longleftrightarrow>
     distinct (map Customer_id (Customer_table d)) \<and>
     distinct (map Customer_email (Customer_table d)) \<and>
     distinct (map Order_id (Order_table d)) \<and>
     distinct (map Product_id (Product_table d)) \<and>
     distinct (map Product_name (Product_table d)) \<and>
     distinct (order_product_table d)"

section \<open>What a function of app.py does\<close>

text \<open>
  The values app.py hands to \<^verbatim>\<open>print\<close>, and the value a call returns.
\<close>

datatype py_value = PyNone | PyInt int | PyStr string | PyDateTime datetime

text \<open>
  A call of a query function: the arguments of its \<^verbatim>\<open>print\<close> calls in order, the
  value it returns to its caller, and the database it leaves behind.
\<close>

record call =
  stdout :: "py_value list"
  returned :: py_value
  db_after :: database

text \<open>
  The exceptions a function of app.py can end with: a date or an integer out of the
  range Python or SQLite takes (OverflowError), an error SQLite reports while it runs a
  statement (OperationalError), a constraint of the schema violated at commit
  (IntegrityError), \<^verbatim>\<open>random.choice\<close> on an empty list (IndexError),
  \<^verbatim>\<open>random.sample\<close> of more than there is (ValueError).
\<close>

datatype error = OverflowError | OperationalError | IntegrityError | IndexError | ValueError

text \<open>
  A call of a query function that can raise: what it has printed, how it ends (with the
  value it returns or with the exception that leaves it), and the database it leaves
  behind.
\<close>

datatype ending = Returned py_value | Raised error

record attempt =
  printed :: "py_value list"
  ending :: ending
  db_left :: database

text \<open>
  The integers SQLite stores and takes as parameters are the signed 64-bit ones; the
  \<^verbatim>\<open>sqlite3\<close> module refuses any other Python integer with an OverflowError.
\<close>

definition sqlite_integer :: "int \<Rightarrow> bool" where
  "sqlite_integer n \<longleftrightarrow> - 9223372036854775808 \<le> n \<and> n \<le> 9223372036854775807"

section \<open>The queries\<close>

subsection \<open>get_orders_by\<close>



subsection \<open>get_pending_orders\<close>

text \<open>
  \<^verbatim>\<open>.order_by(column.desc())\<close>: the rows by descending key.  SQL leaves the order of
  rows with equal keys open; the model fixes one.
\<close>

definition order_by_desc :: "('a \<Rightarrow> datetime) \<Rightarrow> 'a list \<Rightarrow> 'a list" where
  "order_by_desc key rows = rev (sort_key key rows)"

text \<open>
  \<^verbatim>\<open>Order.query.filter(Order.shipped_date.is_(None)).order_by(Order.order_date.desc()).all()\<close>
\<close>

definition pending_orders :: "database \<Rightarrow> Order list" where
  "pending_orders d =
     order_by_desc Order_order_date (filter (\<lambda>ord. Order_shipped_date ord = None) (Order_table d))"

definition get_pending_orders :: "database \<Rightarrow> call" where
  "get_pending_orders d =
     \<lparr>stdout = PyStr ''Pending Orders'' #
               map (\<lambda>order. PyDateTime (Order_order_date order)) (pending_orders d),
      returned = PyNone,
      db_after = d\<rparr>"

subsection \<open>how_many_customers\<close>

text \<open>\<^verbatim>\<open>Customer.query.count()\<close>\<close>

definition customer_count :: "database \<Rightarrow> int" where
  "customer_count d = int (length (Customer_table d))"

definition how_many_customers :: "database \<Rightarrow> call" where
  "how_many_customers d =
     \<lparr>stdout = [PyStr ''How many customers?'', PyInt (customer_count d)],
      returned = PyNone,
      db_after = d\<rparr>"

subsection \<open>orders_with_code\<close>

text \<open>
  \<^verbatim>\<open>Order.query.filter(Order.coupon_code.isnot(None)).filter(Order.coupon_code != 'FREESHIPPING').all()\<close>.
  The second filter is SQL's \<^verbatim>\<open>!=\<close>: on a NULL it is unknown and the row is dropped.
\<close>

definition coupon_orders :: "database \<Rightarrow> Order list" where
  "coupon_orders d =
     filter (\<lambda>ord. case Order_coupon_code ord of None \<Rightarrow> False | Some c \<Rightarrow> c \<noteq> ''FREESHIPPING'')
       (filter (\<lambda>ord. Order_coupon_code ord \<noteq> None) (Order_table d))"

definition print_optional_str :: "string option \<Rightarrow> py_value" where
  "print_optional_str v = (case v of None \<Rightarrow> PyNone | Some s \<Rightarrow> PyStr s)"

definition orders_with_code :: "database \<Rightarrow> call" where
  "orders_with_code d =
     \<lparr>stdout = PyStr ''Orders with coupon code'' #
               map (\<lambda>order. print_optional_str (Order_coupon_code order)) (coupon_orders d),
      returned = PyNone,
      db_after = d\<rparr>"

subsection \<open>revenue_in_last_x_days\<close>

text \<open>
  Python's \<^verbatim>\<open>datetime\<close> reaches from 0001-01-01 00:00:00 to
  9999-12-31 23:59:59.999999.
\<close>

definition datetime_min :: datetime where
  "datetime_min = - 62135596800000000"

definition datetime_max :: datetime where
  "datetime_max = 253402300799999999"

text \<open>
  \<^verbatim>\<open>timedelta(days=x_days)\<close>, in microseconds: Python refuses more than 999999999 days
  either way.
\<close>

definition timedelta_days :: "int \<Rightarrow> error + int" where
  "timedelta_days x_days =
     (if - 999999999 \<le> x_days \<and> x_days \<le> 999999999 then Inr (x_days * 86400000000)
      else Inl OverflowError)"

text \<open>A \<^verbatim>\<open>datetime\<close> minus a \<^verbatim>\<open>timedelta\<close>: the result has to be a \<^verbatim>\<open>datetime\<close>.\<close>

definition datetime_minus :: "datetime \<Rightarrow> int \<Rightarrow> error + datetime" where
  "datetime_minus t delta =
     (if datetime_min \<le> t - delta \<and> t - delta \<le> datetime_max then Inr (t - delta)
      else Inl OverflowError)"

text \<open>
  \<^verbatim>\<open>datetime.now() - timedelta(days=x_days)\<close>.  The clock reading \<^verbatim>\<open>datetime.now()\<close>
  is the argument \<open>now\<close>.
\<close>

definition cutoff :: "datetime \<Rightarrow> int \<Rightarrow> error + datetime" where
  "cutoff now x_days =
     (case timedelta_days x_days of
        Inl e \<Rightarrow> Inl e
      | Inr delta \<Rightarrow> datetime_minus now delta)"

text \<open>
  The rows of
  \<^verbatim>\<open>query(func.sum(Product.price)).join(order_product).join(Order).filter(Order.order_date > cutoff)\<close>:
  product joined to order_product on the product id, joined to order on the order id,
  one price for each joined row that passes the filter.
\<close>

definition revenue_prices :: "database \<Rightarrow> datetime \<Rightarrow> int list" where
  "revenue_prices d after =
     [Product_price p.
        p \<leftarrow> Product_table d,
        r \<leftarrow> order_product_table d, product_id r = Product_id p,
        ord \<leftarrow> Order_table d, Order_id ord = order_id r,
        after < Order_order_date ord]"

text \<open>
  SQL's \<^verbatim>\<open>sum\<close> over integers: NULL over no rows; SQLite adds the rows one by one in
  64-bit integers and reports \<^verbatim>\<open>integer overflow\<close> when a partial sum leaves them.
  The order in which SQLite meets the rows is its own choice; the model adds them in the
  order of \<open>revenue_prices\<close>.
\<close>

fun sum_from :: "int \<Rightarrow> int list \<Rightarrow> error + int" where
  "sum_from acc [] = Inr acc"
| "sum_from acc (v # column) =
     (if sqlite_integer (acc + v) then sum_from (acc + v) column else Inl OperationalError)"

definition func_sum :: "int list \<Rightarrow> error + int option" where
  "func_sum column =
     (if column = [] then Inr None
      else case sum_from 0 column of Inl e \<Rightarrow> Inl e | Inr added \<Rightarrow> Inr (Some added))"

text \<open>The value of \<^verbatim>\<open>.scalar()\<close> for a cutoff.\<close>

definition revenue_scalar :: "database \<Rightarrow> datetime \<Rightarrow> error + int option" where
  "revenue_scalar d after = func_sum (revenue_prices d after)"

definition print_optional_int :: "int option \<Rightarrow> py_value" where
  "print_optional_int v = (case v of None \<Rightarrow> PyNone | Some n \<Rightarrow> PyInt n)"

text \<open>
  The heading is printed first; the argument of the second \<^verbatim>\<open>print\<close> is then
  computed, and an exception on the way leaves the function.
\<close>

definition revenue_in_last_x_days :: "int \<Rightarrow> datetime \<Rightarrow> database \<Rightarrow> attempt" where
  "revenue_in_last_x_days x_days now d =
     (case cutoff now x_days of
        Inl e \<Rightarrow> \<lparr>printed = [PyStr ''Revenue past x days''], ending = Raised e, db_left = d\<rparr>
      | Inr after \<Rightarrow>
          (case revenue_scalar d after of
             Inl e \<Rightarrow> \<lparr>printed = [PyStr ''Revenue past x days''], ending = Raised e, db_left = d\<rparr>
           | Inr scalar \<Rightarrow>
               \<lparr>printed = [PyStr ''Revenue past x days'', print_optional_int scalar],
                ending = Returned PyNone,
                db_left = d\<rparr>))"

text \<open>
  The sum the specification describes, row by row of the association table: the order of
  the row, if it is recent, and the product of the row.
\<close>

definition recent_inclusions :: "database \<Rightarrow> datetime \<Rightarrow> int list" where
  "recent_inclusions d after =
     [Product_price p.
        r \<leftarrow> order_product_table d,
        ord \<leftarrow> Order_table d, Order_id ord = order_id r, after < Order_order_date ord,
        p \<leftarrow> Product_table d, Product_id p = product_id r]"

subsection \<open>get_customers_who_have_purchased_x_dollars\<close>

text \<open>
  The function of lines 161 to 166 has no model.  The assignment to \<^verbatim>\<open>customers\<close> on
  line 163 is a complete statement, which ends with \<^verbatim>\<open>.join(Product)\<close>, and line 164
  begins with \<^verbatim>\<open>.group_by(Customer)\<close> with no bracket open: Python stops at line 164
  with a SyntaxError, so that the function as it is written computes nothing.
\<close>

subsection \<open>average_fulfillment_time\<close>


section \<open>The data generator\<close>

subsection \<open>Loops that can fail\<close>

text \<open>A loop whose body can raise: the results in order, or the first exception.\<close>

fun for_each :: "('a \<Rightarrow> error + 'b) \<Rightarrow> 'a list \<Rightarrow> error + 'b list" where
  "for_each body [] = Inr []"
| "for_each body (x # xs) =
     (case body x of
        Inl e \<Rightarrow> Inl e
      | Inr y \<Rightarrow> (case for_each body xs of Inl e \<Rightarrow> Inl e | Inr ys \<Rightarrow> Inr (y # ys)))"

subsection \<open>Chance\<close>

text \<open>
  Every call of \<^verbatim>\<open>random\<close> and of Faker draws on a source of randomness outside the
  program.  The model takes what is drawn as an argument: for every round of every loop,
  a record of the draws of that round.  A draw of \<^verbatim>\<open>random\<close> is a natural number, from
  which the function of \<^verbatim>\<open>random\<close> computes its result; a draw of Faker is the value
  Faker returns.
\<close>

definition random_choice :: "'a list \<Rightarrow> nat \<Rightarrow> error + 'a" where
  "random_choice seq draw = (if seq = [] then Inl IndexError else Inr (seq ! (draw mod length seq)))"

definition random_randint :: "int \<Rightarrow> int \<Rightarrow> nat \<Rightarrow> int" where
  "random_randint a b draw = a + int (draw mod nat (b - a + 1))"

text \<open>
  \<^verbatim>\<open>random.choices(population, weights)[0]\<close>: the first position whose cumulative weight
  is above the point drawn, the last position at most.
\<close>

fun bisect_weights :: "nat list \<Rightarrow> nat \<Rightarrow> nat" where
  "bisect_weights [] point = 0"
| "bisect_weights [w] point = 0"
| "bisect_weights (w # v # ws) point =
     (if point < w then 0 else Suc (bisect_weights (v # ws) (point - w)))"

definition random_choices :: "'a list \<Rightarrow> nat list \<Rightarrow> nat \<Rightarrow> 'a" where
  "random_choices population weights draw =
     population ! bisect_weights weights (draw mod sum_list weights)"

text \<open>
  \<^verbatim>\<open>random.sample(population, k)\<close>, as CPython runs it on a population of up to 21
  elements: from a copy of the population, \<open>k\<close> times, take the element at a random
  position and move the last element into its place.  (On a larger population CPython
  draws positions until it has \<open>k\<close> different ones.)
\<close>

fun sample_pool :: "'a list \<Rightarrow> nat \<Rightarrow> (nat \<Rightarrow> nat) \<Rightarrow> nat \<Rightarrow> 'a list" where
  "sample_pool pool 0 randbelow i = []"
| "sample_pool pool (Suc k) randbelow i =
     (let j = randbelow i mod length pool
      in pool ! j # sample_pool (butlast (pool[j := last pool])) k randbelow (Suc i))"

definition random_sample :: "'a list \<Rightarrow> int \<Rightarrow> (nat \<Rightarrow> nat) \<Rightarrow> error + 'a list" where
  "random_sample population k randbelow =
     (if k < 0 \<or> int (length population) < k then Inl ValueError
      else Inr (sample_pool population (nat k) randbelow 0))"

text \<open>The keyword arguments of \<^verbatim>\<open>Customer(...)\<close>, all from Faker.\<close>

record new_customer =
  first_name :: string
  last_name :: string
  address :: string
  city :: string
  postcode :: string
  email :: string

text \<open>
  \<^verbatim>\<open>fake.date_time_between(start_date=t)\<close>, with \<^verbatim>\<open>end_date\<close> left at now.  Faker
  turns both ends into whole seconds since 1970-01-01, which drops the microseconds of
  \<open>t\<close>, draws a time between the two and returns it.  The draw is given as the number
  of microseconds from the second of \<open>t\<close> to the result.
\<close>

definition date_time_between :: "datetime \<Rightarrow> nat \<Rightarrow> datetime" where
  "date_time_between start_date drawn = 1000000 * (start_date div 1000000) + int drawn"

text \<open>
  The draws of one round of the loop of \<^verbatim>\<open>add_orders\<close>, in the order of the calls:
  the customer, what \<^verbatim>\<open>fake.date_time_this_year()\<close> returns, the draw of
  \<^verbatim>\<open>fake.date_time_between(start_date=ordered_date)\<close>, the choice between no shipped
  date and that one, the same two for the delivered date, and the coupon.
\<close>

record order_draws =
  choice_draw :: nat
  date_time_this_year :: datetime
  shipped_after :: nat
  shipped_draw :: nat
  delivered_after :: nat
  delivered_draw :: nat
  coupon_draw :: nat

record product_draws =
  color_name :: string
  price_draw :: nat

record link_draws =
  k_draw :: nat
  sample_draws :: "nat \<Rightarrow> nat"

record chance =
  customer_round :: "nat \<Rightarrow> new_customer"
  order_round :: "nat \<Rightarrow> order_draws"
  product_round :: "nat \<Rightarrow> product_draws"
  link_round :: "nat \<Rightarrow> link_draws"

subsection \<open>The session\<close>

text \<open>
  An integer primary key that the program leaves out is chosen by SQLite: one more than
  the largest in the table, 1 in an empty table.  (Once the largest key is
  9223372036854775807 SQLite tries unused keys at random; the model does not follow it
  there.)
\<close>

definition next_id :: "int list \<Rightarrow> int" where
  "next_id ids = (case ids of [] \<Rightarrow> 1 | i # rest \<Rightarrow> fold max rest i + 1)"

text \<open>The keyword arguments of \<^verbatim>\<open>Order(...)\<close> and of \<^verbatim>\<open>Product(...)\<close>.\<close>

record new_order =
  customer_id :: int
  order_date :: datetime
  shipped_date :: "datetime option"
  delivered_date :: "datetime option"
  coupon_code :: "string option"

record new_product =
  name :: string
  price :: int

text \<open>
  One INSERT each, under the constraints of the schema: a second customer with an email
  in use, a second product with a name in use, or a second association row for an order
  and a product, is an IntegrityError.
\<close>

definition insert_customer :: "database \<Rightarrow> new_customer \<Rightarrow> error + database" where
  "insert_customer d c =
     (if email c \<in> set (map Customer_email (Customer_table d)) then Inl IntegrityError
      else Inr (d\<lparr>Customer_table := Customer_table d @
             [\<lparr>Customer_id = next_id (map Customer_id (Customer_table d)),
               Customer_first_name = first_name c, Customer_last_name = last_name c,
               Customer_address = address c, Customer_city = city c,
               Customer_postcode = postcode c, Customer_email = email c\<rparr>]\<rparr>))"

definition insert_order :: "database \<Rightarrow> new_order \<Rightarrow> error + database" where
  "insert_order d n =
     Inr (d\<lparr>Order_table := Order_table d @
            [\<lparr>Order_id = next_id (map Order_id (Order_table d)),
              Order_order_date = order_date n, Order_shipped_date = shipped_date n,
              Order_delivered_date = delivered_date n, Order_coupon_code = coupon_code n,
              Order_customer_id = customer_id n\<rparr>]\<rparr>)"

text \<open>What a stored order has from the \<^verbatim>\<open>Order(...)\<close> it was added as.\<close>

definition stored_as :: "new_order \<Rightarrow> Order \<Rightarrow> bool" where
  "stored_as n ord \<longleftrightarrow>
     Order_order_date ord = order_date n \<and> Order_shipped_date ord = shipped_date n \<and>
     Order_delivered_date ord = delivered_date n \<and> Order_coupon_code ord = coupon_code n \<and>
     Order_customer_id ord = customer_id n"

definition insert_product :: "database \<Rightarrow> new_product \<Rightarrow> error + database" where
  "insert_product d p =
     (if name p \<in> set (map Product_name (Product_table d)) then Inl IntegrityError
      else Inr (d\<lparr>Product_table := Product_table d @
             [\<lparr>Product_id = next_id (map Product_id (Product_table d)),
               Product_name = name p, Product_price = price p\<rparr>]\<rparr>))"

definition insert_order_product :: "database \<Rightarrow> order_product \<Rightarrow> error + database" where
  "insert_order_product d r =
     (if r \<in> set (order_product_table d) then Inl IntegrityError
      else Inr (d\<lparr>order_product_table := order_product_table d @ [r]\<rparr>))"

text \<open>
  \<^verbatim>\<open>db.session.commit()\<close> after a loop of \<^verbatim>\<open>db.session.add\<close>: the pending rows are
  inserted in the order they were added, and the first failure ends the call with
  nothing stored.
\<close>

fun commit :: "(database \<Rightarrow> 'a \<Rightarrow> error + database) \<Rightarrow> 'a list \<Rightarrow> database \<Rightarrow> error + database" where
  "commit ins [] d = Inr d"
| "commit ins (x # pending) d =
     (case ins d x of Inl e \<Rightarrow> Inl e | Inr d' \<Rightarrow> commit ins pending d')"

subsection \<open>add_customers\<close>

definition add_customers :: "chance \<Rightarrow> database \<Rightarrow> error + database" where
  "add_customers ch d = commit insert_customer (map (customer_round ch) [0..<100]) d"

subsection \<open>add_orders\<close>

text \<open>One round of the loop: the \<^verbatim>\<open>Order\<close> it adds to the session.\<close>

definition make_order :: "Customer list \<Rightarrow> order_draws \<Rightarrow> error + new_order" where
  "make_order customers draws =
     (case random_choice customers (choice_draw draws) of
        Inl e \<Rightarrow> Inl e
      | Inr customer \<Rightarrow>
          (let ordered_date = date_time_this_year draws;
               shipped = random_choices
                           [None, Some (date_time_between ordered_date (shipped_after draws))]
                           [10, 90] (shipped_draw draws);
               delivered = (case shipped of
                              None \<Rightarrow> None
                            | Some shipped_at \<Rightarrow>
                                random_choices
                                  [None, Some (date_time_between shipped_at (delivered_after draws))]
                                  [50, 50] (delivered_draw draws));
               coupon = random_choices [None, Some ''50OFF'', Some ''FREESHIPPING'', Some ''BUYONEGETONE'']
                          [80, 5, 5, 5] (coupon_draw draws)
           in Inr \<lparr>customer_id = Customer_id customer, order_date = ordered_date,
                   shipped_date = shipped, delivered_date = delivered, coupon_code = coupon\<rparr>))"

definition add_orders :: "chance \<Rightarrow> database \<Rightarrow> error + database" where
  "add_orders ch d =
     (let customers = Customer_table d
      in case for_each (\<lambda>i. make_order customers (order_round ch i)) [0..<1000] of
           Inl e \<Rightarrow> Inl e
         | Inr pending \<Rightarrow> commit insert_order pending d)"

subsection \<open>add_products\<close>

definition make_product :: "product_draws \<Rightarrow> new_product" where
  "make_product draws = \<lparr>name = color_name draws, price = random_randint 10 100 (price_draw draws)\<rparr>"

definition add_products :: "chance \<Rightarrow> database \<Rightarrow> error + database" where
  "add_products ch d = commit insert_product (map (\<lambda>i. make_product (product_round ch i)) [0..<10]) d"

subsection \<open>add_order_products\<close>

text \<open>
  The relationship \<^verbatim>\<open>Order.products\<close>: the products joined to the order through the
  association table.
\<close>

definition Order_products :: "database \<Rightarrow> Order \<Rightarrow> Product list" where
  "Order_products d ord =
     [p. r \<leftarrow> order_product_table d, order_id r = Order_id ord,
         p \<leftarrow> Product_table d, Product_id p = product_id r]"

text \<open>
  \<^verbatim>\<open>order.products.extend(purchased_products)\<close>: at commit the session inserts an
  association row for every product of the collection that was not in it when it was
  loaded.
\<close>

definition extend_products :: "database \<Rightarrow> Order \<Rightarrow> Product list \<Rightarrow> order_product list" where
  "extend_products d ord purchased_products =
     [\<lparr>order_id = Order_id ord, product_id = Product_id p\<rparr>.
        p \<leftarrow> purchased_products, p \<notin> set (Order_products d ord)]"

text \<open>The body of the loop for the order at position \<open>i\<close>: the products it samples.\<close>

definition purchase :: "chance \<Rightarrow> Product list \<Rightarrow> nat \<Rightarrow> error + Product list" where
  "purchase ch products i =
     (let k = random_randint 1 3 (k_draw (link_round ch i))
      in random_sample products k (sample_draws (link_round ch i)))"

text \<open>
  The loop extends the collection of every order with what it samples; the commit
  writes the association rows of all orders.
\<close>

definition add_order_products :: "chance \<Rightarrow> database \<Rightarrow> error + database" where
  "add_order_products ch d =
     (let orders = Order_table d;
          products = Product_table d
      in case for_each (\<lambda>(i, ord). case purchase ch products i of
                                     Inl e \<Rightarrow> Inl e
                                   | Inr purchased_products \<Rightarrow> Inr (ord, purchased_products))
                (enumerate 0 orders) of
           Inl e \<Rightarrow> Inl e
         | Inr extended \<Rightarrow>
             commit insert_order_product
               (concat (map (\<lambda>(ord, purchased_products). extend_products d ord purchased_products)
                  extended)) d)"

subsection \<open>create_random_data\<close>

text \<open>
  \<^verbatim>\<open>db.create_all()\<close> creates the tables that are missing and leaves every row as it
  is.
\<close>

definition create_all :: "database \<Rightarrow> database" where
  "create_all d = d"

definition create_random_data :: "chance \<Rightarrow> database \<Rightarrow> error + database" where
  "create_random_data ch d =
     (case add_customers ch (create_all d) of
        Inl e \<Rightarrow> Inl e
      | Inr d1 \<Rightarrow>
          (case add_orders ch d1 of
             Inl e \<Rightarrow> Inl e
           | Inr d2 \<Rightarrow>
               (case add_products ch d2 of
                  Inl e \<Rightarrow> Inl e
                | Inr d3 \<Rightarrow> add_order_products ch d3)))"

section \<open>Example databases\<close>

definition alice :: Customer where
  "alice = \<lparr>Customer_id = 1, Customer_first_name = ''Alice'', Customer_last_name = ''Adams'',
     Customer_address = ''1 Main Street'', Customer_city = ''Leeds'', Customer_postcode = ''LS1'',
     Customer_email = ''alice@example.org''\<rparr>"

text \<open>One customer and nothing else.\<close>

definition lone_customer_database :: database where
  "lone_customer_database = empty_database\<lparr>Customer_table := [alice]\<rparr>"

text \<open>
  One customer with one order, placed at the given time and not shipped, that includes
  two products of the given prices.
\<close>

definition single_order :: "datetime \<Rightarrow> Order" where
  "single_order placed = \<lparr>Order_id = 1, Order_order_date = placed, Order_shipped_date = None,
     Order_delivered_date = None, Order_coupon_code = None, Order_customer_id = 1\<rparr>"

definition one_order_database :: "int \<Rightarrow> int \<Rightarrow> datetime \<Rightarrow> database" where
  "one_order_database price1 price2 placed =
     \<lparr>Customer_table = [alice],
      Order_table = [single_order placed],
      Product_table = [\<lparr>Product_id = 1, Product_name = ''Red'', Product_price = price1\<rparr>,
                       \<lparr>Product_id = 2, Product_name = ''Blue'', Product_price = price2\<rparr>],
      order_product_table = [\<lparr>order_id = 1, product_id = 1\<rparr>, \<lparr>order_id = 1, product_id = 2\<rparr>]\<rparr>"

text \<open>
  Three orders of one customer: pending without a coupon, shipped with free shipping,
  pending with half off; the third is the most recent.
\<close>

definition order_plain :: Order where
  "order_plain = \<lparr>Order_id = 1, Order_order_date = 100, Order_shipped_date = None,
     Order_delivered_date = None, Order_coupon_code = None, Order_customer_id = 1\<rparr>"

definition order_free_shipping :: Order where
  "order_free_shipping = \<lparr>Order_id = 2, Order_order_date = 200, Order_shipped_date = Some 250,
     Order_delivered_date = None, Order_coupon_code = Some ''FREESHIPPING'', Order_customer_id = 1\<rparr>"

definition order_half_off :: Order where
  "order_half_off = \<lparr>Order_id = 3, Order_order_date = 300, Order_shipped_date = None,
     Order_delivered_date = None, Order_coupon_code = Some ''50OFF'', Order_customer_id = 1\<rparr>"

definition three_orders_database :: database where
  "three_orders_database =
     \<lparr>Customer_table = [alice],
      Order_table = [order_plain, order_free_shipping, order_half_off],
      Product_table = [],
      order_product_table = []\<rparr>"

text \<open>
  One order and four products: once with three of the products in the order already,
  once with none.
\<close>

definition busy_database :: database where
  "busy_database =
     \<lparr>Customer_table = [alice],
      Order_table = [single_order 0],
      Product_table = [\<lparr>Product_id = 1, Product_name = ''Red'', Product_price = 10\<rparr>,
                       \<lparr>Product_id = 2, Product_name = ''Blue'', Product_price = 20\<rparr>,
                       \<lparr>Product_id = 3, Product_name = ''Green'', Product_price = 30\<rparr>,
                       \<lparr>Product_id = 4, Product_name = ''Black'', Product_price = 40\<rparr>],
      order_product_table = [\<lparr>order_id = 1, product_id = 2\<rparr>, \<lparr>order_id = 1, product_id = 3\<rparr>,
                             \<lparr>order_id = 1, product_id = 4\<rparr>]\<rparr>"

definition catalogue_database :: database where
  "catalogue_database = busy_database\<lparr>order_product_table := []\<rparr>"

section \<open>Examples of chance\<close>

text \<open>
  Draws under which the generator runs through: the emails and the colour names differ
  from round to round, and every order is shipped an hour after it was placed and
  delivered an hour later.
\<close>

definition steady_chance :: chance where
  "steady_chance =
     \<lparr>customer_round = (\<lambda>i. \<lparr>first_name = ''Ann'', last_name = ''Lee'', address = ''2 High Street'',
                               city = ''York'', postcode = ''YO1'', email = replicate i CHR ''a''\<rparr>),
      order_round = (\<lambda>i. \<lparr>choice_draw = i, date_time_this_year = 1700000000000000,
                            shipped_after = 3600000000, shipped_draw = 50,
                            delivered_after = 3600000000, delivered_draw = 70, coupon_draw = 81\<rparr>),
      product_round = (\<lambda>i. \<lparr>color_name = replicate i CHR ''c'', price_draw = i\<rparr>),
      link_round = (\<lambda>i. \<lparr>k_draw = i, sample_draws = (\<lambda>j. i + j)\<rparr>)\<rparr>"

text \<open>
  The same with Faker drawing seven tenths of a second for the shipped date and three
  tenths of a second for the delivered date.
\<close>

definition hasty_chance :: chance where
  "hasty_chance =
     steady_chance\<lparr>order_round :=
       (\<lambda>i. \<lparr>choice_draw = i, date_time_this_year = 1700000000000000,
              shipped_after = 700000, shipped_draw = 50,
              delivered_after = 300000, delivered_draw = 70, coupon_draw = 81\<rparr>)\<rparr>"

text \<open>The same with three products sampled for every order.\<close>

definition eager_chance :: chance where
  "eager_chance = steady_chance\<lparr>link_round := (\<lambda>i. \<lparr>k_draw = 2, sample_draws = (\<lambda>j. j)\<rparr>)\<rparr>"

section \<open>Properties of the queries\<close>

lemma order_by_desc_mset: "mset (order_by_desc key rows) = mset rows"
  by (simp add: order_by_desc_def)

lemma order_by_desc_sorted:
  "sorted_wrt (\<lambda>a b. key b \<le> key a) (order_by_desc key rows)"
proof -
  have "sorted_wrt (\<lambda>a b. key a \<le> key b) (sort_key key rows)"
    using sorted_sort_key [of key rows] by (simp add: sorted_map)
  then show ?thesis
    by (simp add: order_by_desc_def sorted_wrt_rev)
qed

text \<open>
  C4.  The result of \<^verbatim>\<open>get_pending_orders\<close> holds exactly the orders without a shipped
  date, each as often as the table holds it; every result is at least as recent as the
  one after it; and the function prints the order dates of these rows in this order.
\<close>

theorem pending_orders_exact_and_descending:
  "set (pending_orders d) = {ord \<in> set (Order_table d). Order_shipped_date ord = None} \<and>
   mset (pending_orders d) = filter_mset (\<lambda>ord. Order_shipped_date ord = None) (mset (Order_table d)) \<and>
   (\<forall>i. Suc i < length (pending_orders d) \<longrightarrow>
      Order_order_date (pending_orders d ! Suc i) \<le> Order_order_date (pending_orders d ! i)) \<and>
   stdout (get_pending_orders d) =
     PyStr ''Pending Orders'' # map (\<lambda>order. PyDateTime (Order_order_date order)) (pending_orders d)"
proof -
  let ?p = "\<lambda>ord. Order_shipped_date ord = None"
  have m: "mset (pending_orders d) = filter_mset ?p (mset (Order_table d))"
    by (simp add: pending_orders_def order_by_desc_mset)
  have "set (pending_orders d) = set_mset (filter_mset ?p (mset (Order_table d)))"
    using m by (metis set_mset_mset)
  then have s: "set (pending_orders d) = {ord \<in> set (Order_table d). ?p ord}"
    by simp
  have "sorted_wrt (\<lambda>a b. Order_order_date b \<le> Order_order_date a) (pending_orders d)"
    by (simp add: pending_orders_def order_by_desc_sorted)
  then have a: "\<forall>i. Suc i < length (pending_orders d) \<longrightarrow>
      Order_order_date (pending_orders d ! Suc i) \<le> Order_order_date (pending_orders d ! i)"
    by (simp add: sorted_wrt_iff_nth_less)
  have p: "stdout (get_pending_orders d) =
     PyStr ''Pending Orders'' # map (\<lambda>order. PyDateTime (Order_order_date order)) (pending_orders d)"
    by (simp add: get_pending_orders_def)
  from s m a p show ?thesis by blast
qed

theorem pending_orders_exact_and_descending_witness:
  "Suc 0 < length (pending_orders three_orders_database) \<and>
   pending_orders three_orders_database = [order_half_off, order_plain] \<and>
   Order_order_date (pending_orders three_orders_database ! Suc 0)
     \<le> Order_order_date (pending_orders three_orders_database ! 0)"
proof -
  have p: "pending_orders three_orders_database = [order_half_off, order_plain]"
    by (simp add: pending_orders_def order_by_desc_def three_orders_database_def
        order_plain_def order_free_shipping_def order_half_off_def)
  then have l: "Suc 0 < length (pending_orders three_orders_database)"
    by simp
  with pending_orders_exact_and_descending [of three_orders_database] have
    "Order_order_date (pending_orders three_orders_database ! Suc 0)
       \<le> Order_order_date (pending_orders three_orders_database ! 0)"
    by blast
  with p l show ?thesis by blast
qed

text \<open>
  C10.  No result of \<^verbatim>\<open>orders_with_code\<close> lacks a coupon code or has the code
  FREESHIPPING, and every order of the table that has another code is a result; the
  results are rows of the table, in storage order, and their codes are what is printed.
\<close>

theorem orders_with_code_excludes_free_shipping:
  "(\<forall>ord \<in> set (coupon_orders d).
      Order_coupon_code ord \<noteq> None \<and> Order_coupon_code ord \<noteq> Some ''FREESHIPPING'') \<and>
   (\<forall>ord \<in> set (Order_table d).
      (\<exists>c. Order_coupon_code ord = Some c \<and> c \<noteq> ''FREESHIPPING'') \<longrightarrow> ord \<in> set (coupon_orders d)) \<and>
   coupon_orders d =
     filter (\<lambda>ord. \<exists>c. Order_coupon_code ord = Some c \<and> c \<noteq> ''FREESHIPPING'') (Order_table d) \<and>
   stdout (orders_with_code d) =
     PyStr ''Orders with coupon code'' #
       map (\<lambda>order. print_optional_str (Order_coupon_code order)) (coupon_orders d)"
proof -
  have f: "coupon_orders d =
     filter (\<lambda>ord. \<exists>c. Order_coupon_code ord = Some c \<and> c \<noteq> ''FREESHIPPING'') (Order_table d)"
    unfolding coupon_orders_def filter_filter
    by (rule filter_cong) (auto split: option.splits)
  have p: "stdout (orders_with_code d) =
     PyStr ''Orders with coupon code'' #
       map (\<lambda>order. print_optional_str (Order_coupon_code order)) (coupon_orders d)"
    by (simp add: orders_with_code_def)
  from f have a: "\<forall>ord \<in> set (coupon_orders d).
      Order_coupon_code ord \<noteq> None \<and> Order_coupon_code ord \<noteq> Some ''FREESHIPPING''"
    by auto
  from f have b: "\<forall>ord \<in> set (Order_table d).
      (\<exists>c. Order_coupon_code ord = Some c \<and> c \<noteq> ''FREESHIPPING'') \<longrightarrow> ord \<in> set (coupon_orders d)"
    by auto
  from a b f p show ?thesis by blast
qed

theorem orders_with_code_excludes_free_shipping_witness:
  "coupon_orders three_orders_database = [order_half_off] \<and>
   order_half_off \<in> set (Order_table three_orders_database) \<and>
   Order_coupon_code order_half_off = Some ''50OFF'' \<and>
   Order_coupon_code order_half_off \<noteq> None \<and>
   Order_coupon_code order_half_off \<noteq> Some ''FREESHIPPING''"
proof -
  have t: "order_half_off \<in> set (Order_table three_orders_database)"
    by (simp add: three_orders_database_def)
  have c: "Order_coupon_code order_half_off = Some ''50OFF''"
    by (simp add: order_half_off_def)
  then have "\<exists>c. Order_coupon_code order_half_off = Some c \<and> c \<noteq> ''FREESHIPPING''"
    by simp
  with t orders_with_code_excludes_free_shipping [of three_orders_database]
  have m: "order_half_off \<in> set (coupon_orders three_orders_database)"
    by blast
  with orders_with_code_excludes_free_shipping [of three_orders_database]
  have n: "Order_coupon_code order_half_off \<noteq> None \<and>
           Order_coupon_code order_half_off \<noteq> Some ''FREESHIPPING''"
    by blast
  have e: "coupon_orders three_orders_database = [order_half_off]"
    by (simp add: coupon_orders_def three_orders_database_def
        order_plain_def order_free_shipping_def order_half_off_def)
  from e t c n show ?thesis by blast
qed

subsection \<open>Revenue\<close>

lemma concat_map_Nil: "concat (map (\<lambda>y. []) ys) = []"
  by (induction ys) auto

lemma mset_concat_map_append:
  "mset (concat (map (\<lambda>y. g y @ h y) ys)) = mset (concat (map g ys)) + mset (concat (map h ys))"
  by (induction ys) auto

text \<open>Two nested loops over independent tables can change places.\<close>

lemma mset_concat_map_swap:
  "mset (concat (map (\<lambda>x. concat (map (\<lambda>y. f x y) ys)) xs)) =
   mset (concat (map (\<lambda>y. concat (map (\<lambda>x. f x y) xs)) ys))"
proof (induction xs)
  case Nil
  show ?case by (simp add: concat_map_Nil)
next
  case (Cons x xs)
  have "mset (concat (map (\<lambda>y. concat (map (\<lambda>x. f x y) (x # xs))) ys)) =
        mset (concat (map (\<lambda>y. f x y @ concat (map (\<lambda>x. f x y) xs)) ys))"
    by simp
  also have "\<dots> = mset (concat (map (\<lambda>y. f x y) ys)) +
                  mset (concat (map (\<lambda>y. concat (map (\<lambda>x. f x y) xs)) ys))"
    by (rule mset_concat_map_append)
  finally show ?case using Cons.IH by simp
qed

lemma mset_concat_map_cong:
  "(\<And>x. x \<in> set xs \<Longrightarrow> mset (f x) = mset (g x)) \<Longrightarrow>
   mset (concat (map f xs)) = mset (concat (map g xs))"
  by (induction xs) auto

text \<open>
  The join of the query, which starts from the products, lists the same prices as the
  walk over the association rows.
\<close>

lemma revenue_prices_perm: "mset (revenue_prices d after) = mset (recent_inclusions d after)"
proof -
  let ?ps = "Product_table d" and ?rs = "order_product_table d" and ?os = "Order_table d"
  let ?f = "\<lambda>p r. if product_id r = Product_id p
      then concat (map (\<lambda>ord. if Order_id ord = order_id r then
         if after < Order_order_date ord then [Product_price p] else [] else []) ?os) else []"
  let ?g = "\<lambda>r ord p. if Order_id ord = order_id r then
         if after < Order_order_date ord then
           if Product_id p = product_id r then [Product_price p] else [] else [] else []"
  have "mset (revenue_prices d after) =
        mset (concat (map (\<lambda>p. concat (map (\<lambda>r. ?f p r) ?rs)) ?ps))"
    by (simp add: revenue_prices_def)
  also have "\<dots> = mset (concat (map (\<lambda>r. concat (map (\<lambda>p. ?f p r) ?ps)) ?rs))"
    by (rule mset_concat_map_swap)
  also have "\<dots> =
      mset (concat (map (\<lambda>r. concat (map (\<lambda>ord. concat (map (\<lambda>p. ?g r ord p) ?ps)) ?os)) ?rs))"
  proof (rule mset_concat_map_cong)
    fix r :: order_product
    have "mset (concat (map (\<lambda>p. ?f p r) ?ps)) =
          mset (concat (map (\<lambda>p. concat (map (\<lambda>ord. ?g r ord p) ?os)) ?ps))"
      by (rule mset_concat_map_cong) (auto simp: concat_map_Nil)
    also have "\<dots> = mset (concat (map (\<lambda>ord. concat (map (\<lambda>p. ?g r ord p) ?ps)) ?os))"
      by (rule mset_concat_map_swap)
    finally show "mset (concat (map (\<lambda>p. ?f p r) ?ps)) =
          mset (concat (map (\<lambda>ord. concat (map (\<lambda>p. ?g r ord p) ?ps)) ?os))" .
  qed
  also have "\<dots> = mset (recent_inclusions d after)"
    unfolding recent_inclusions_def
    by (intro arg_cong [where f = mset] arg_cong [where f = concat] map_cong refl)
      (simp add: concat_map_Nil)
  finally show ?thesis .
qed

lemma revenue_prices_sum: "sum_list (revenue_prices d after) = sum_list (recent_inclusions d after)"
  using revenue_prices_perm [of d after] by (metis sum_mset_sum_list)

lemma revenue_prices_empty: "revenue_prices d after = [] \<longleftrightarrow> recent_inclusions d after = []"
  using revenue_prices_perm [of d after] by (metis mset_zero_iff)

lemma revenue_prices_abs:
  "sum_list (map abs (revenue_prices d after)) = sum_list (map abs (recent_inclusions d after))"
proof -
  from revenue_prices_perm [of d after]
  have "mset (map abs (revenue_prices d after)) = mset (map abs (recent_inclusions d after))"
    by simp
  then show ?thesis by (metis sum_mset_sum_list)
qed

text \<open>
  While the absolute values of the rows add up to a 64-bit integer, no partial sum
  overflows, in whatever order the rows are added.
\<close>

lemma sum_from_in_range:
  "\<bar>acc\<bar> + sum_list (map abs column) \<le> 9223372036854775807 \<Longrightarrow>
   sum_from acc column = Inr (acc + sum_list column)"
proof (induction column arbitrary: acc)
  case Nil
  show ?case by simp
next
  case (Cons v column)
  have "0 \<le> sum_list (map abs column)"
    by (rule sum_list_nonneg) auto
  with Cons.prems have step: "sqlite_integer (acc + v)"
    by (simp add: sqlite_integer_def) linarith
  from Cons.prems have "\<bar>acc + v\<bar> + sum_list (map abs column) \<le> 9223372036854775807"
    by simp
  from Cons.IH [OF this] step show ?case
    by (simp add: add.assoc)
qed

lemma cutoff_Inr: "cutoff now x_days = Inr after \<Longrightarrow> after = now - x_days * 86400000000"
  by (auto simp: cutoff_def timedelta_days_def datetime_minus_def split: if_splits)

text \<open>
  C2, as the claim states it, fails at three inputs.  At the empty database the query
  yields no number, while the specified sum over no rows is 0.  With a window of a
  million days, now minus the window is no date of Python's and the call ends with an
  OverflowError.  With prices 9223372036854775807 and 1 on a recent order SQLite reports
  an integer overflow.
\<close>

theorem revenue_is_not_always_the_sum:
  "printed (revenue_in_last_x_days 30 1700000000000000 empty_database)
     = [PyStr ''Revenue past x days'', PyNone] \<and>
   sum_list (recent_inclusions empty_database (1700000000000000 - 30 * 86400000000)) = 0 \<and>
   ending (revenue_in_last_x_days 1000000 1700000000000000
             (one_order_database 10 20 1699996400000000)) = Raised OverflowError \<and>
   printed (revenue_in_last_x_days 1000000 1700000000000000
              (one_order_database 10 20 1699996400000000)) = [PyStr ''Revenue past x days''] \<and>
   ending (revenue_in_last_x_days 1 1700000000000000
             (one_order_database 9223372036854775807 1 1699996400000000)) = Raised OperationalError \<and>
   printed (revenue_in_last_x_days 1 1700000000000000
              (one_order_database 9223372036854775807 1 1699996400000000))
     = [PyStr ''Revenue past x days'']"
proof -
  have c30: "cutoff 1700000000000000 30 = Inr 1697408000000000"
    and c1: "cutoff 1700000000000000 1 = Inr 1699913600000000"
    and far: "cutoff 1700000000000000 1000000 = Inl OverflowError"
    by (simp_all add: cutoff_def timedelta_days_def datetime_minus_def datetime_min_def
        datetime_max_def)
  have "printed (revenue_in_last_x_days 30 1700000000000000 empty_database)
     = [PyStr ''Revenue past x days'', PyNone]"
    by (simp add: revenue_in_last_x_days_def c30 revenue_scalar_def revenue_prices_def
        func_sum_def empty_database_def print_optional_int_def)
  moreover have
    "sum_list (recent_inclusions empty_database (1700000000000000 - 30 * 86400000000)) = 0"
    by (simp add: recent_inclusions_def empty_database_def)
  moreover have "revenue_in_last_x_days 1000000 1700000000000000
             (one_order_database 10 20 1699996400000000)
      = \<lparr>printed = [PyStr ''Revenue past x days''], ending = Raised OverflowError,
         db_left = one_order_database 10 20 1699996400000000\<rparr>"
    by (simp add: revenue_in_last_x_days_def far)
  moreover have "revenue_prices (one_order_database 9223372036854775807 1 1699996400000000)
      1699913600000000 = [9223372036854775807, 1]"
    by (simp add: revenue_prices_def one_order_database_def single_order_def)
  then have "revenue_in_last_x_days 1 1700000000000000
             (one_order_database 9223372036854775807 1 1699996400000000)
      = \<lparr>printed = [PyStr ''Revenue past x days''], ending = Raised OperationalError,
         db_left = one_order_database 9223372036854775807 1 1699996400000000\<rparr>"
    by (simp add: revenue_in_last_x_days_def c1 revenue_scalar_def func_sum_def
        sqlite_integer_def)
  ultimately show ?thesis by simp
qed

text \<open>
  C2, amended.  Let now minus \<open>x_days\<close> days be a date of Python's, let some
  association row have a product and an order dated strictly after it, and let the
  absolute values of the prices of these rows add up to a 64-bit integer.  Then the
  scalar of \<^verbatim>\<open>revenue_in_last_x_days\<close> is the sum, over the association rows whose order
  is dated strictly after now minus \<open>x_days\<close> days, of the price of the product of the
  row; that number is what the function prints, and the call completes.
\<close>

theorem revenue_is_sum_over_recent_inclusions:
  assumes "cutoff now x_days = Inr after"
    and "recent_inclusions d after \<noteq> []"
    and "sum_list (map abs (recent_inclusions d after)) \<le> 9223372036854775807"
  shows "after = now - x_days * 86400000000 \<and>
         revenue_scalar d after = Inr (Some (sum_list (recent_inclusions d after))) \<and>
         printed (revenue_in_last_x_days x_days now d)
           = [PyStr ''Revenue past x days'', PyInt (sum_list (recent_inclusions d after))] \<and>
         ending (revenue_in_last_x_days x_days now d) = Returned PyNone"
proof -
  from assms(2) have rows: "revenue_prices d after \<noteq> []"
    by (simp add: revenue_prices_empty)
  from assms(3) have "\<bar>0\<bar> + sum_list (map abs (revenue_prices d after)) \<le> 9223372036854775807"
    by (simp add: revenue_prices_abs)
  from sum_from_in_range [OF this] have
    "sum_from 0 (revenue_prices d after) = Inr (sum_list (recent_inclusions d after))"
    by (simp add: revenue_prices_sum)
  with rows have scalar:
    "revenue_scalar d after = Inr (Some (sum_list (recent_inclusions d after)))"
    by (simp add: revenue_scalar_def func_sum_def)
  with assms(1) cutoff_Inr [OF assms(1)] show ?thesis
    by (simp add: revenue_in_last_x_days_def print_optional_int_def)
qed

text \<open>
  The scenario of the specification: one order placed an hour before now, with two
  products priced 10 and 20, and a window of one day.
\<close>

theorem revenue_is_sum_over_recent_inclusions_witness:
  "cutoff 1700000000000000 1 = Inr 1699913600000000 \<and>
   recent_inclusions (one_order_database 10 20 1699996400000000) 1699913600000000 = [10, 20] \<and>
   revenue_scalar (one_order_database 10 20 1699996400000000) 1699913600000000 = Inr (Some 30) \<and>
   printed (revenue_in_last_x_days 1 1700000000000000 (one_order_database 10 20 1699996400000000))
     = [PyStr ''Revenue past x days'', PyInt 30]"
proof -
  have c: "cutoff 1700000000000000 1 = Inr 1699913600000000"
    by (simp add: cutoff_def timedelta_days_def datetime_minus_def datetime_min_def
        datetime_max_def)
  have r: "recent_inclusions (one_order_database 10 20 1699996400000000) 1699913600000000
      = [10, 20]"
    by (simp add: recent_inclusions_def one_order_database_def single_order_def)
  then have h: "recent_inclusions (one_order_database 10 20 1699996400000000) 1699913600000000
      \<noteq> []"
    and small: "sum_list (map abs (recent_inclusions (one_order_database 10 20 1699996400000000)
      1699913600000000)) \<le> 9223372036854775807"
    by simp_all
  from revenue_is_sum_over_recent_inclusions [OF c h small] c r show ?thesis
    by simp
qed



subsection \<open>What the queries hand back\<close>



section \<open>Properties of the data generator\<close>

subsection \<open>Loops and commits\<close>

lemma for_each_Inr: "for_each body xs = Inr ys \<longleftrightarrow> list_all2 (\<lambda>x y. body x = Inr y) xs ys"
proof (induction xs arbitrary: ys)
  case Nil
  show ?case by auto
next
  case (Cons x xs)
  show ?case
  proof (cases "body x")
    case (Inl e)
    then show ?thesis by (auto simp: list_all2_Cons1)
  next
    case (Inr y)
    show ?thesis
    proof (cases "for_each body xs")
      case (Inl e)
      with Inr Cons.IH show ?thesis by (auto simp: list_all2_Cons1)
    next
      case inner: (Inr zs)
      with Inr Cons.IH show ?thesis by (auto simp: list_all2_Cons1)
    qed
  qed
qed

lemma commit_invariant:
  assumes step: "\<And>d x d'. P d \<Longrightarrow> ins d x = Inr d' \<Longrightarrow> P d'"
  shows "P d \<Longrightarrow> commit ins xs d = Inr d' \<Longrightarrow> P d'"
proof (induction xs arbitrary: d)
  case Nil
  then show ?case by simp
next
  case (Cons x xs)
  from Cons.prems(2) obtain d1 where d1: "ins d x = Inr d1" and rest: "commit ins xs d1 = Inr d'"
    by (auto split: sum.splits)
  from step [OF Cons.prems(1) d1] rest show ?case
    by (rule Cons.IH)
qed

subsection \<open>Fresh keys\<close>

lemma fold_max_start: "a \<le> fold max xs (a :: int)"
proof (induction xs arbitrary: a)
  case Nil
  show ?case by simp
next
  case (Cons y ys)
  have "a \<le> max y a" by simp
  also have "max y a \<le> fold max ys (max y a)" by (rule Cons.IH)
  finally show ?case by simp
qed

lemma fold_max_upper: "x \<in> set xs \<Longrightarrow> x \<le> fold max xs (a :: int)"
proof (induction xs arbitrary: a)
  case Nil
  then show ?case by simp
next
  case (Cons y ys)
  show ?case
  proof (cases "x = y")
    case True
    have "y \<le> max y a" by simp
    also have "max y a \<le> fold max ys (max y a)" by (rule fold_max_start)
    finally show ?thesis using True by simp
  next
    case False
    with Cons.prems have "x \<in> set ys" by simp
    then show ?thesis by (simp add: Cons.IH)
  qed
qed

lemma next_id_fresh: "next_id ids \<notin> set ids"
proof (cases ids)
  case Nil
  then show ?thesis by simp
next
  case (Cons i rest)
  have "\<forall>x \<in> set ids. x \<le> fold max rest i"
    using Cons by (auto intro: fold_max_upper fold_max_start)
  then show ?thesis
    using Cons by (fastforce simp: next_id_def)
qed

subsection \<open>What each insert keeps\<close>

lemma insert_customer_schema:
  "schema_constraints d \<Longrightarrow> insert_customer d c = Inr d' \<Longrightarrow> schema_constraints d'"
  using next_id_fresh [of "map Customer_id (Customer_table d)"]
  by (auto simp: insert_customer_def schema_constraints_def split: if_splits)

lemma insert_order_schema:
  "schema_constraints d \<Longrightarrow> insert_order d n = Inr d' \<Longrightarrow> schema_constraints d'"
  using next_id_fresh [of "map Order_id (Order_table d)"]
  by (auto simp: insert_order_def schema_constraints_def)

lemma insert_product_schema:
  "schema_constraints d \<Longrightarrow> insert_product d p = Inr d' \<Longrightarrow> schema_constraints d'"
  using next_id_fresh [of "map Product_id (Product_table d)"]
  by (auto simp: insert_product_def schema_constraints_def split: if_splits)

lemma insert_order_product_schema:
  "schema_constraints d \<Longrightarrow> insert_order_product d r = Inr d' \<Longrightarrow> schema_constraints d'"
  by (auto simp: insert_order_product_def schema_constraints_def split: if_splits)


subsection \<open>add_orders\<close>

lemma commit_insert_order_rows:
  "commit insert_order pending d = Inr d' \<Longrightarrow>
   \<exists>new. Order_table d' = Order_table d @ new \<and> list_all2 stored_as pending new"
proof (induction pending arbitrary: d)
  case Nil
  then show ?case by simp
next
  case (Cons n pending)
  let ?row = "\<lparr>Order_id = next_id (map Order_id (Order_table d)),
              Order_order_date = order_date n, Order_shipped_date = shipped_date n,
              Order_delivered_date = delivered_date n, Order_coupon_code = coupon_code n,
              Order_customer_id = customer_id n\<rparr>"
  from Cons.prems obtain d1 where
    d1: "insert_order d n = Inr d1" and rest: "commit insert_order pending d1 = Inr d'"
    by (auto split: sum.splits)
  from d1 have t1: "Order_table d1 = Order_table d @ [?row]"
    by (auto simp: insert_order_def)
  from Cons.IH [OF rest] obtain new where
    new: "Order_table d' = Order_table d1 @ new" "list_all2 stored_as pending new"
    by blast
  have "stored_as n ?row" by (simp add: stored_as_def)
  with new t1 have "Order_table d' = Order_table d @ (?row # new) \<and>
      list_all2 stored_as (n # pending) (?row # new)"
    by simp
  then show ?case by blast
qed

lemma add_orders_rows:
  assumes "add_orders ch d = Inr d'"
  shows "\<exists>pending new.
     list_all2 (\<lambda>i n. make_order (Customer_table d) (order_round ch i) = Inr n) [0..<1000] pending \<and>
     Order_table d' = Order_table d @ new \<and> list_all2 stored_as pending new"
proof -
  from assms obtain pending where
    loop: "for_each (\<lambda>i. make_order (Customer_table d) (order_round ch i)) [0..<1000] = Inr pending"
    and stored: "commit insert_order pending d = Inr d'"
    by (auto simp: add_orders_def Let_def split: sum.splits)
  from loop have
    "list_all2 (\<lambda>i n. make_order (Customer_table d) (order_round ch i) = Inr n) [0..<1000] pending"
    by (simp add: for_each_Inr)
  with commit_insert_order_rows [OF stored] show ?thesis by blast
qed

lemma list_all2_right: "list_all2 P xs ys \<Longrightarrow> y \<in> set ys \<Longrightarrow> \<exists>x \<in> set xs. P x y"
  by (induction rule: list_all2_induct) auto

lemma for_each_succeeds:
  "(\<And>x. x \<in> set xs \<Longrightarrow> \<exists>y. body x = Inr y) \<Longrightarrow> \<exists>ys. for_each body xs = Inr ys"
proof (induction xs)
  case Nil
  show ?case by simp
next
  case (Cons x xs)
  from Cons.prems obtain y where "body x = Inr y" by auto
  moreover from Cons obtain ys where "for_each body xs = Inr ys" by auto
  ultimately show ?case by simp
qed

lemma commit_insert_order_succeeds: "\<exists>d'. commit insert_order pending d = Inr d'"
proof (induction pending arbitrary: d)
  case Nil
  show ?case by simp
next
  case (Cons n pending)
  obtain d1 where "insert_order d n = Inr d1" by (simp add: insert_order_def)
  with Cons.IH [of d1] show ?case by simp
qed

lemma make_order_succeeds: "customers \<noteq> [] \<Longrightarrow> \<exists>n. make_order customers draws = Inr n"
  by (simp add: make_order_def random_choice_def Let_def)

lemma add_orders_succeeds:
  assumes "Customer_table d \<noteq> []"
  shows "\<exists>d'. add_orders ch d = Inr d'"
proof -
  from for_each_succeeds [of "[0..<1000]" "\<lambda>i. make_order (Customer_table d) (order_round ch i)"]
    make_order_succeeds [OF assms]
  obtain pending where
    "for_each (\<lambda>i. make_order (Customer_table d) (order_round ch i)) [0..<1000] = Inr pending"
    by blast
  with commit_insert_order_succeeds [of pending d] show ?thesis
    by (auto simp: add_orders_def Let_def)
qed

lemma hasty_order:
  "customers \<noteq> [] \<Longrightarrow> make_order customers (order_round hasty_chance i) = Inr n \<Longrightarrow>
   order_date n = 1700000000000000 \<and> shipped_date n = Some 1700000000700000 \<and>
   delivered_date n = Some 1700000000300000"
  by (auto simp: make_order_def random_choice_def Let_def hasty_chance_def random_choices_def
      date_time_between_def)

text \<open>
  C5 fails on the code.  \<^verbatim>\<open>add_orders\<close> passes the shipped date as \<^verbatim>\<open>start_date\<close> for
  the delivered date, but Faker counts from the whole second of \<^verbatim>\<open>start_date\<close>.  With a
  shipped date drawn seven tenths of a second into a second and a delivered date drawn
  three tenths of a second into the same second, each of the 1000 orders stored is
  delivered before it was shipped.
\<close>

theorem generated_order_is_delivered_before_it_is_shipped:
  "\<exists>d'. add_orders hasty_chance lone_customer_database = Inr d' \<and>
      length (Order_table d') = 1000 \<and>
      (\<lambda>ord. (Order_order_date ord, Order_shipped_date ord, Order_delivered_date ord)) `
        set (Order_table d')
        = {(1700000000000000, Some 1700000000700000, Some 1700000000300000)} \<and>
      (1700000000300000 :: datetime) < 1700000000700000"
proof -
  have customers: "Customer_table lone_customer_database \<noteq> []"
    and empty: "Order_table lone_customer_database = []"
    by (simp_all add: lone_customer_database_def empty_database_def)
  from add_orders_succeeds [OF customers] obtain d' where
    run: "add_orders hasty_chance lone_customer_database = Inr d'"
    by blast
  from add_orders_rows [OF run] empty obtain pending where
    made: "list_all2 (\<lambda>i n. make_order (Customer_table lone_customer_database)
               (order_round hasty_chance i) = Inr n) [0..<1000] pending"
    and stored: "list_all2 stored_as pending (Order_table d')"
    by auto
  from made stored have len: "length (Order_table d') = 1000"
    by (auto dest!: list_all2_lengthD)
  have "Order_order_date ord = 1700000000000000 \<and>
        Order_shipped_date ord = Some 1700000000700000 \<and>
        Order_delivered_date ord = Some 1700000000300000"
    if "ord \<in> set (Order_table d')" for ord
  proof -
    from list_all2_right [OF stored that] obtain n where n: "n \<in> set pending" "stored_as n ord"
      by blast
    from list_all2_right [OF made n(1)] obtain i where
      "make_order (Customer_table lone_customer_database) (order_round hasty_chance i) = Inr n"
      by blast
    from hasty_order [OF customers this] n(2) show ?thesis
      by (simp add: stored_as_def)
  qed
  then have fields:
    "\<forall>ord \<in> set (Order_table d').
       (Order_order_date ord, Order_shipped_date ord, Order_delivered_date ord)
         = (1700000000000000, Some 1700000000700000, Some 1700000000300000)"
    by simp
  from len obtain first rest where "Order_table d' = first # rest"
    by (cases "Order_table d'") auto
  then have "first \<in> set (Order_table d')"
    by simp
  with fields have
    "(\<lambda>ord. (Order_order_date ord, Order_shipped_date ord, Order_delivered_date ord)) `
       set (Order_table d')
     = {(1700000000000000, Some 1700000000700000, Some 1700000000300000)}"
    by (auto simp: image_iff)
  with run len show ?thesis by simp
qed

subsection \<open>add_customers and the customer count\<close>

lemma commit_insert_customer_count:
  "commit insert_customer pending d = Inr d' \<Longrightarrow>
   length (Customer_table d') = length (Customer_table d) + length pending"
proof (induction pending arbitrary: d)
  case Nil
  then show ?case by simp
next
  case (Cons c pending)
  from Cons.prems obtain d1 where
    d1: "insert_customer d c = Inr d1" and rest: "commit insert_customer pending d1 = Inr d'"
    by (auto split: sum.splits)
  from d1 have "length (Customer_table d1) = length (Customer_table d) + 1"
    by (auto simp: insert_customer_def split: if_splits)
  with Cons.IH [OF rest] show ?case by simp
qed

lemma add_customers_count:
  "add_customers ch d = Inr d' \<Longrightarrow> length (Customer_table d') = length (Customer_table d) + 100"
  by (auto simp: add_customers_def dest: commit_insert_customer_count)

lemma add_orders_customers: "add_orders ch d = Inr d' \<Longrightarrow> Customer_table d' = Customer_table d"
proof -
  assume "add_orders ch d = Inr d'"
  then obtain pending where "commit insert_order pending d = Inr d'"
    by (auto simp: add_orders_def Let_def split: sum.splits)
  then show ?thesis
    by (rule commit_invariant [where P = "\<lambda>x. Customer_table x = Customer_table d", rotated 2])
       (auto simp: insert_order_def)
qed

lemma add_products_customers: "add_products ch d = Inr d' \<Longrightarrow> Customer_table d' = Customer_table d"
proof -
  assume "add_products ch d = Inr d'"
  then have "commit insert_product (map (\<lambda>i. make_product (product_round ch i)) [0..<10]) d = Inr d'"
    by (simp add: add_products_def)
  then show ?thesis
    by (rule commit_invariant [where P = "\<lambda>x. Customer_table x = Customer_table d", rotated 2])
       (auto simp: insert_product_def split: if_splits)
qed

lemma add_order_products_customers:
  "add_order_products ch d = Inr d' \<Longrightarrow> Customer_table d' = Customer_table d"
proof -
  assume "add_order_products ch d = Inr d'"
  then obtain rows where "commit insert_order_product rows d = Inr d'"
    by (auto simp: add_order_products_def Let_def split: sum.splits)
  then show ?thesis
    by (rule commit_invariant [where P = "\<lambda>x. Customer_table x = Customer_table d", rotated 2])
       (auto simp: insert_order_product_def split: if_splits)
qed

lemma create_random_data_count:
  assumes "create_random_data ch d = Inr d'"
  shows "length (Customer_table d') = length (Customer_table d) + 100"
proof -
  from assms obtain d1 d2 d3 where
    "add_customers ch d = Inr d1" "add_orders ch d1 = Inr d2"
    "add_products ch d2 = Inr d3" "add_order_products ch d3 = Inr d'"
    by (auto simp: create_random_data_def create_all_def split: sum.splits)
  then show ?thesis
    by (simp add: add_customers_count add_orders_customers add_products_customers
        add_order_products_customers)
qed

text \<open>
  C8.  When \<^verbatim>\<open>create_random_data\<close> completes on the empty database,
  \<^verbatim>\<open>how_many_customers\<close> counts and prints 100, the number of rounds of the loop of
  \<^verbatim>\<open>add_customers\<close>.
\<close>

theorem seeded_database_has_100_customers:
  assumes "create_random_data ch empty_database = Inr d'"
  shows "customer_count d' = 100 \<and>
         stdout (how_many_customers d') = [PyStr ''How many customers?'', PyInt 100]"
  using create_random_data_count [OF assms]
  by (simp add: how_many_customers_def customer_count_def empty_database_def)

subsection \<open>random.sample\<close>

lemma mset_pool_step:
  assumes "j < length pool"
  shows "mset (butlast (pool[j := last pool])) = mset pool - {#pool ! j#}"
proof -
  from assms have "pool \<noteq> []" by auto
  then obtain xs l where pool: "pool = xs @ [l]"
    by (metis append_butlast_last_id)
  show ?thesis
  proof (cases "j < length xs")
    case True
    then have "butlast (pool[j := last pool]) = xs[j := l]"
      by (simp add: pool list_update_append)
    moreover from True have "mset (xs[j := l]) = add_mset l (mset xs - {#xs ! j#})"
      by (simp add: mset_update)
    moreover from True have "pool ! j = xs ! j"
      by (simp add: pool nth_append)
    moreover from True have "xs ! j \<in># mset xs" by simp
    ultimately show ?thesis
      by (simp add: pool)
  next
    case False
    with assms have "j = length xs" by (simp add: pool)
    then show ?thesis by (simp add: pool)
  qed
qed

lemma sample_pool_mset:
  "k \<le> length pool \<Longrightarrow> mset (sample_pool pool k randbelow i) \<subseteq># mset pool"
proof (induction k arbitrary: pool i)
  case 0
  show ?case by simp
next
  case (Suc k)
  let ?j = "randbelow i mod length pool"
  let ?rest = "butlast (pool[?j := last pool])"
  from Suc.prems have "0 < length pool" by linarith
  then have j: "?j < length pool" by (rule mod_less_divisor)
  from Suc.prems have "k \<le> length ?rest" by simp
  then have "mset (sample_pool ?rest k randbelow (Suc i)) \<subseteq># mset ?rest"
    by (rule Suc.IH)
  then have "mset (sample_pool ?rest k randbelow (Suc i)) \<subseteq># mset pool - {#pool ! ?j#}"
    by (simp only: mset_pool_step [OF j])
  then have "add_mset (pool ! ?j) (mset (sample_pool ?rest k randbelow (Suc i))) \<subseteq># mset pool"
    using j by (metis insert_subset_eq_iff nth_mem_mset)
  then show ?case by (simp add: Let_def)
qed

lemma sample_pool_length: "length (sample_pool pool k randbelow i) = k"
  by (induction k arbitrary: pool i) (simp_all add: Let_def)

lemma random_randint_1_3: "1 \<le> random_randint 1 3 draw \<and> random_randint 1 3 draw \<le> 3"
  by (simp add: random_randint_def)

lemma purchase_Inr:
  assumes "purchase ch products i = Inr ps"
  shows "1 \<le> length ps \<and> length ps \<le> 3 \<and> mset ps \<subseteq># mset products"
proof -
  let ?k = "random_randint 1 3 (k_draw (link_round ch i))"
  have k: "1 \<le> ?k \<and> ?k \<le> 3" by (rule random_randint_1_3)
  from assms have fits: "?k \<le> int (length products)"
    and ps: "ps = sample_pool products (nat ?k) (sample_draws (link_round ch i)) 0"
    by (auto simp: purchase_def random_sample_def Let_def split: if_splits)
  from fits k have "nat ?k \<le> length products" by simp
  then have "mset ps \<subseteq># mset products"
    unfolding ps by (rule sample_pool_mset)
  moreover have "length ps = nat ?k"
    unfolding ps by (rule sample_pool_length)
  ultimately show ?thesis using k by auto
qed

lemma purchase_succeeds:
  "3 \<le> length products \<Longrightarrow> \<exists>ps. purchase ch products i = Inr ps"
  using random_randint_1_3 [of "k_draw (link_round ch i)"]
  by (simp add: purchase_def random_sample_def Let_def)

lemma sub_mset_distinct:
  assumes "mset xs \<subseteq># mset ys" and "distinct ys"
  shows "distinct xs"
proof -
  have "count (mset xs) a = (if a \<in> set xs then 1 else 0)" for a
  proof (cases "a \<in> set xs")
    case True
    then have "0 < count (mset xs) a" by simp
    moreover from assms(1) have "count (mset xs) a \<le> count (mset ys) a"
      by (rule mset_subset_eq_count)
    moreover from assms(2) have "count (mset ys) a \<le> 1"
      by (simp add: distinct_count_atmost_1)
    ultimately have "count (mset xs) a = 1" by linarith
    with True show ?thesis by simp
  next
    case False
    then show ?thesis by simp
  qed
  then show ?thesis by (simp only: distinct_count_atmost_1) simp
qed

lemma sub_mset_distinct_ids:
  assumes "mset ps \<subseteq># mset products" and "distinct (map Product_id products)"
  shows "distinct (map Product_id ps) \<and> set ps \<subseteq> set products"
proof -
  from assms(1) have "image_mset Product_id (mset ps) \<subseteq># image_mset Product_id (mset products)"
    by (rule image_mset_subseteq_mono)
  then have "mset (map Product_id ps) \<subseteq># mset (map Product_id products)"
    by simp
  then have "distinct (map Product_id ps)"
    using assms(2) by (rule sub_mset_distinct)
  moreover from assms(1) have "set ps \<subseteq> set products"
    by (rule set_mset_mono [of "mset ps" "mset products", simplified])
  ultimately show ?thesis by simp
qed


subsection \<open>add_order_products\<close>

lemma concat_map_filter: "concat (map (\<lambda>x. if P x then [x] else []) xs) = filter P xs"
  by (induction xs) auto

lemma Order_products_rows:
  "Order_products d ord =
     concat (map (\<lambda>r. if order_id r = Order_id ord
                       then filter (\<lambda>p. Product_id p = product_id r) (Product_table d) else [])
               (order_product_table d))"
  by (simp add: Order_products_def concat_map_filter cong: if_cong)

lemma commit_insert_order_product_tables:
  "commit insert_order_product rows d = Inr d' \<Longrightarrow>
   order_product_table d' = order_product_table d @ rows \<and> Customer_table d' = Customer_table d \<and>
   Order_table d' = Order_table d \<and> Product_table d' = Product_table d"
proof (induction rows arbitrary: d)
  case Nil
  then show ?case by simp
next
  case (Cons r rows)
  from Cons.prems obtain d1 where
    d1: "insert_order_product d r = Inr d1" and rest: "commit insert_order_product rows d1 = Inr d'"
    by (auto split: sum.splits)
  from d1 have "order_product_table d1 = order_product_table d @ [r]"
    "Customer_table d1 = Customer_table d" "Order_table d1 = Order_table d"
    "Product_table d1 = Product_table d"
    by (auto simp: insert_order_product_def split: if_splits)
  with Cons.IH [OF rest] show ?case by simp
qed

lemma loop_of_add_order_products:
  "list_all2 (\<lambda>(i, ord) e. (case purchase ch products i of
                               Inl err \<Rightarrow> Inl err
                             | Inr purchased_products \<Rightarrow> Inr (ord, purchased_products)) = Inr e)
     (enumerate n orders) extended \<Longrightarrow>
   map fst extended = orders \<and> (\<forall>e \<in> set extended. \<exists>i. purchase ch products i = Inr (snd e))"
proof (induction orders arbitrary: n extended)
  case Nil
  then show ?case by simp
next
  case (Cons ord orders)
  from Cons.prems obtain e rest where
    ext: "extended = e # rest"
    and e: "(case purchase ch products n of Inl err \<Rightarrow> Inl err
             | Inr purchased_products \<Rightarrow> Inr (ord, purchased_products)) = Inr e"
    and rest: "list_all2 (\<lambda>(i, ord) e. (case purchase ch products i of
                               Inl err \<Rightarrow> Inl err
                             | Inr purchased_products \<Rightarrow> Inr (ord, purchased_products)) = Inr e)
                 (enumerate (Suc n) orders) rest"
    by (auto simp: list_all2_Cons1)
  from e have "fst e = ord \<and> purchase ch products n = Inr (snd e)"
    by (auto split: sum.splits)
  with Cons.IH [OF rest] ext show ?case by auto
qed

lemma distinct_map_head: "distinct (map key (x # ys)) \<Longrightarrow> z \<in> set ys \<Longrightarrow> key z \<noteq> key x"
proof
  assume "distinct (map key (x # ys))" and z: "z \<in> set ys" and same: "key z = key x"
  then have "key x \<notin> key ` set ys" by simp
  moreover from z have "key z \<in> key ` set ys" by (rule imageI)
  ultimately show False using same by simp
qed

lemma concat_map_concat:
  "concat (map f (concat xss)) = concat (map (\<lambda>xs. concat (map f xs)) xss)"
  by (induction xss) auto

lemma concat_map_single:
  "distinct (map key xs) \<Longrightarrow> x \<in> set xs \<Longrightarrow>
   (\<And>y. y \<in> set xs \<Longrightarrow> key y \<noteq> key x \<Longrightarrow> f y = []) \<Longrightarrow> concat (map f xs) = f x"
proof (induction xs)
  case Nil
  then show ?case by simp
next
  case (Cons y ys)
  show ?case
  proof (cases "y = x")
    case True
    with Cons.prems(1) have "\<forall>z \<in> set ys. key z \<noteq> key x"
      by (blast dest: distinct_map_head)
    with Cons.prems(3) have "\<forall>z \<in> set ys. f z = []" by simp
    then have "concat (map f ys) = []" by simp
    with True show ?thesis by simp
  next
    case False
    with Cons.prems(2) have x: "x \<in> set ys" by simp
    with Cons.prems(1) have "key y \<noteq> key x" by auto
    with Cons.prems(3) have "f y = []" by simp
    moreover from Cons.prems(1) have "distinct (map key ys)" by simp
    from Cons.IH [OF this x] Cons.prems(3) have "concat (map f ys) = f x" by simp
    ultimately show ?thesis by simp
  qed
qed

lemma filter_by_id:
  "distinct (map Product_id products) \<Longrightarrow> p \<in> set products \<Longrightarrow>
   filter (\<lambda>q. Product_id q = Product_id p) products = [p]"
proof (induction products)
  case Nil
  then show ?case by simp
next
  case (Cons q products)
  show ?case
  proof (cases "q = p")
    case True
    with Cons.prems(1) have "\<forall>z \<in> set products. Product_id z \<noteq> Product_id p"
      by (blast dest: distinct_map_head)
    then have "filter (\<lambda>q. Product_id q = Product_id p) products = []" by simp
    with True show ?thesis by simp
  next
    case False
    with Cons.prems have "p \<in> set products" and "Product_id q \<noteq> Product_id p" by auto
    with Cons show ?thesis by simp
  qed
qed

lemma products_of_new_rows:
  assumes "distinct (map Product_id products)" and "set ps \<subseteq> set products"
  shows "concat (map (\<lambda>r. if order_id r = i
                          then filter (\<lambda>q. Product_id q = product_id r) products else [])
           (map (\<lambda>p. \<lparr>order_id = i, product_id = Product_id p\<rparr>) ps)) = ps"
  using assms(2)
proof (induction ps)
  case Nil
  show ?case by simp
next
  case (Cons p ps)
  then have "p \<in> set products" by simp
  from filter_by_id [OF assms(1) this] Cons show ?case by simp
qed

lemma extend_products_map:
  "extend_products d ord ps =
     map (\<lambda>p. \<lparr>order_id = Order_id ord, product_id = Product_id p\<rparr>)
       (filter (\<lambda>p. p \<notin> set (Order_products d ord)) ps)"
  by (induction ps) (auto simp: extend_products_def)

lemma Order_products_in_table: "set (Order_products d ord) \<subseteq> set (Product_table d)"
  by (auto simp: Order_products_def)

lemma same_row: "order_id r = order_id r' \<Longrightarrow> product_id r = product_id r' \<Longrightarrow> r = r'"
  for r r' :: order_product
  by simp

text \<open>
  Under the keys of the schema the products joined to one order have pairwise different
  ids: a product id occurs in one association row of the order and in one product.
\<close>

lemma joined_ids_distinct:
  "distinct rows \<Longrightarrow> distinct (map Product_id products) \<Longrightarrow>
   distinct (map Product_id (concat (map
     (\<lambda>r. if order_id r = i then filter (\<lambda>q. Product_id q = product_id r) products else [])
     rows)))"
  for rows :: "order_product list"
proof (induction rows)
  case Nil
  show ?case by simp
next
  case (Cons r rows)
  let ?of = "\<lambda>r. if order_id r = i
                  then filter (\<lambda>q. Product_id q = product_id r) products else []"
  from Cons have rest: "distinct (map Product_id (concat (map ?of rows)))"
    by simp
  show ?case
  proof (cases "order_id r = i")
    case False
    with rest show ?thesis by simp
  next
    case True
    from Cons.prems(2) have head:
      "distinct (map Product_id (filter (\<lambda>q. Product_id q = product_id r) products))"
      by (rule distinct_map_filter)
    have differs: "Product_id q \<noteq> product_id r" if "q \<in> set (concat (map ?of rows))" for q
    proof
      assume same: "Product_id q = product_id r"
      from that obtain r' where r': "r' \<in> set rows" "order_id r' = i"
        "Product_id q = product_id r'"
        by (auto split: if_splits)
      with True same have "order_id r' = order_id r" and "product_id r' = product_id r"
        by simp_all
      then have "r' = r" by (rule same_row)
      with r'(1) Cons.prems(1) show False by simp
    qed
    have "Product_id p \<noteq> Product_id q"
      if "p \<in> set (filter (\<lambda>q. Product_id q = product_id r) products)"
        and "q \<in> set (concat (map ?of rows))" for p q
      using that(1) differs [OF that(2)] by simp
    then have "set (map Product_id (filter (\<lambda>q. Product_id q = product_id r) products))
        \<inter> set (map Product_id (concat (map ?of rows))) = {}"
      by (simp only: set_map) blast
    with head rest have "distinct (map Product_id
        (filter (\<lambda>q. Product_id q = product_id r) products @ concat (map ?of rows)))"
      by (simp only: map_append distinct_append)
    with True show ?thesis by simp
  qed
qed

lemma Order_products_ids_distinct:
  "schema_constraints d \<Longrightarrow> distinct (map Product_id (Order_products d ord))"
  unfolding Order_products_rows
  by (rule joined_ids_distinct) (simp_all add: schema_constraints_def)

text \<open>
  What a completed run does to one order: the products sampled for it that it did not
  include are appended to those it included.
\<close>

lemma Order_products_after_run:
  assumes "schema_constraints d"
    and "add_order_products ch d = Inr d'"
    and "ord \<in> set (Order_table d')"
  shows "\<exists>ps. 1 \<le> length ps \<and> length ps \<le> 3 \<and> distinct (map Product_id ps) \<and>
           set ps \<subseteq> set (Product_table d) \<and>
           Order_products d' ord =
             Order_products d ord @ filter (\<lambda>p. p \<notin> set (Order_products d ord)) ps"
proof -
  let ?products = "Product_table d"
  let ?rows = "\<lambda>(ord, purchased_products). extend_products d ord purchased_products"
  let ?of_ord = "\<lambda>r. if order_id r = Order_id ord
                     then filter (\<lambda>q. Product_id q = product_id r) ?products else []"
  from assms(2) obtain extended where
    loop: "for_each (\<lambda>(i, ord). case purchase ch ?products i of
               Inl e \<Rightarrow> Inl e | Inr purchased_products \<Rightarrow> Inr (ord, purchased_products))
             (enumerate 0 (Order_table d)) = Inr extended"
    and stored: "commit insert_order_product (concat (map ?rows extended)) d = Inr d'"
    by (auto simp: add_order_products_def Let_def split: sum.splits)
  from loop have "list_all2 (\<lambda>(i, ord) e. (case purchase ch ?products i of
               Inl err \<Rightarrow> Inl err | Inr purchased_products \<Rightarrow> Inr (ord, purchased_products)) = Inr e)
             (enumerate 0 (Order_table d)) extended"
    by (simp add: for_each_Inr case_prod_unfold)
  from loop_of_add_order_products [OF this] have
    firsts: "map fst extended = Order_table d"
    and sampled: "\<forall>e \<in> set extended. \<exists>i. purchase ch ?products i = Inr (snd e)"
    by simp_all
  from commit_insert_order_product_tables [OF stored] have
    tables: "order_product_table d' = order_product_table d @ concat (map ?rows extended)"
      "Order_table d' = Order_table d" "Product_table d' = ?products"
    by simp_all
  from assms(1) have ids: "distinct (map Order_id (Order_table d))"
    and pids: "distinct (map Product_id ?products)"
    by (simp_all add: schema_constraints_def)
  from assms(3) tables(2) firsts obtain ps where e: "(ord, ps) \<in> set extended"
    by (metis (no_types, lifting) imageE list.set_map prod.collapse)
  with sampled obtain i where "purchase ch ?products i = Inr ps" by fastforce
  from purchase_Inr [OF this] have len: "1 \<le> length ps" "length ps \<le> 3"
    and sub: "mset ps \<subseteq># mset ?products"
    by simp_all
  from sub_mset_distinct_ids [OF sub pids] have dps: "distinct (map Product_id ps)"
    and inp: "set ps \<subseteq> set ?products"
    by simp_all
  let ?new = "filter (\<lambda>p. p \<notin> set (Order_products d ord)) ps"
  from inp have new_inp: "set ?new \<subseteq> set ?products" by auto
  have "map (\<lambda>e. Order_id (fst e)) extended = map Order_id (map fst extended)"
    by simp
  with ids firsts have key: "distinct (map (\<lambda>e. Order_id (fst e)) extended)"
    by simp
  have other: "concat (map ?of_ord (?rows y)) = []"
    if "y \<in> set extended" "Order_id (fst y) \<noteq> Order_id (fst (ord, ps))" for y
    using that by (cases y) (auto simp: extend_products_def)
  have "concat (map ?of_ord (concat (map ?rows extended)))
      = concat (map (\<lambda>e. concat (map ?of_ord (?rows e))) extended)"
    by (simp add: concat_map_concat o_def)
  also have "\<dots> = concat (map ?of_ord (?rows (ord, ps)))"
    using key e other by (rule concat_map_single)
  also have "\<dots> = concat (map ?of_ord
      (map (\<lambda>p. \<lparr>order_id = Order_id ord, product_id = Product_id p\<rparr>) ?new))"
    by (simp add: extend_products_map)
  also have "\<dots> = ?new"
    using pids new_inp by (rule products_of_new_rows)
  finally have new: "concat (map ?of_ord (concat (map ?rows extended))) = ?new" .
  have "Order_products d' ord
      = concat (map ?of_ord (order_product_table d @ concat (map ?rows extended)))"
    by (simp only: Order_products_rows [of d'] tables)
  with new have "Order_products d' ord = Order_products d ord @ ?new"
    by (simp add: Order_products_rows [of d])
  with len dps inp show ?thesis by blast
qed

text \<open>
  C6, amended.  In a database that satisfies the constraints of the schema, when
  \<^verbatim>\<open>add_order_products\<close> completes, every order has at least one product and its
  products are pairwise distinct (also by product id); an order that had no product
  before the run has at most three.
\<close>

theorem linked_orders_have_distinct_products:
  assumes "schema_constraints d"
    and "add_order_products ch d = Inr d'"
    and "ord \<in> set (Order_table d')"
  shows "1 \<le> length (Order_products d' ord) \<and>
         distinct (Order_products d' ord) \<and>
         distinct (map Product_id (Order_products d' ord)) \<and>
         (Order_products d ord = [] \<longrightarrow> length (Order_products d' ord) \<le> 3)"
proof -
  let ?old = "Order_products d ord"
  from Order_products_after_run [OF assms] obtain ps where
    len: "1 \<le> length ps" "length ps \<le> 3"
    and dps: "distinct (map Product_id ps)"
    and inp: "set ps \<subseteq> set (Product_table d)"
    and after: "Order_products d' ord = ?old @ filter (\<lambda>p. p \<notin> set ?old) ps"
    by blast
  let ?new = "filter (\<lambda>p. p \<notin> set ?old) ps"
  from assms(1) have pids: "distinct (map Product_id (Product_table d))"
    by (simp add: schema_constraints_def)
  have some: "1 \<le> length (?old @ ?new)"
  proof (cases "?new = []")
    case False
    then show ?thesis by (cases ?new) auto
  next
    case True
    from len(1) obtain p where "p \<in> set ps" by (cases ps) auto
    with True have "p \<in> set ?old" by (auto simp: filter_empty_conv)
    then show ?thesis by (cases ?old) auto
  qed
  have old_ids: "distinct (map Product_id ?old)"
    using assms(1) by (rule Order_products_ids_distinct)
  from dps have new_ids: "distinct (map Product_id ?new)"
    by (rule distinct_map_filter)
  have apart: "Product_id q \<noteq> Product_id p" if "q \<in> set ?old" "p \<in> set ?new" for p q
  proof
    assume same: "Product_id q = Product_id p"
    from that(1) Order_products_in_table have "q \<in> set (Product_table d)" by auto
    moreover from that(2) inp have "p \<in> set (Product_table d)" by auto
    ultimately have "q = p"
      using pids same by (auto simp: distinct_map dest: inj_onD)
    with that show False by simp
  qed
  from old_ids new_ids apart have ids: "distinct (map Product_id (?old @ ?new))"
    by auto
  then have "distinct (?old @ ?new)"
    by (simp only: distinct_map)
  with some ids after len(2) show ?thesis
    by simp
qed

lemma steady_first_purchase:
  "purchase steady_chance (p # q # ps) 0 = Inr [p]"
  by (simp add: purchase_def steady_chance_def random_randint_def random_sample_def Let_def)

text \<open>
  C6, as the claim states it, at an order that includes three products before the run:
  the run adds a fourth.
\<close>

theorem relinked_order_has_four_products:
  "\<exists>d'. add_order_products steady_chance busy_database = Inr d' \<and>
      single_order 0 \<in> set (Order_table d') \<and>
      length (Order_products d' (single_order 0)) = 4 \<and>
      \<not> length (Order_products d' (single_order 0)) \<le> 3"
proof -
  have "add_order_products steady_chance busy_database =
      Inr (busy_database\<lparr>order_product_table :=
             order_product_table busy_database @ [\<lparr>order_id = 1, product_id = 1\<rparr>]\<rparr>)"
    by (simp add: add_order_products_def busy_database_def steady_first_purchase
        extend_products_def Order_products_def insert_order_product_def single_order_def)
  moreover have "length (Order_products (busy_database\<lparr>order_product_table :=
             order_product_table busy_database @ [\<lparr>order_id = 1, product_id = 1\<rparr>]\<rparr>)
           (single_order 0)) = 4"
    by (simp add: Order_products_def busy_database_def single_order_def)
  moreover have "single_order 0 \<in> set (Order_table busy_database)"
    by (simp add: busy_database_def)
  ultimately show ?thesis by simp
qed

lemma sample_three:
  "sample_pool [a, b, c, e] (Suc (Suc (Suc 0))) (\<lambda>j. j) 0 = [a, b, e]"
  by (simp add: Let_def)

lemma eager_purchase: "purchase eager_chance [a, b, c, e] i = Inr [a, b, e]"
proof -
  have "random_randint 1 3 2 = 3"
    by (simp add: random_randint_def)
  moreover have "nat 3 = Suc (Suc (Suc 0))"
    by simp
  ultimately show ?thesis
    by (simp only: purchase_def eager_chance_def steady_chance_def chance.simps link_draws.simps
        Let_def random_sample_def sample_three) simp
qed

text \<open>
  Three products sampled for an order without products: the first, the second and the
  fourth of the table.
\<close>

theorem linked_orders_have_distinct_products_witness:
  "schema_constraints catalogue_database \<and>
   Order_products catalogue_database (single_order 0) = [] \<and>
   (\<exists>d'. add_order_products eager_chance catalogue_database = Inr d' \<and>
      single_order 0 \<in> set (Order_table d') \<and>
      Order_products d' (single_order 0)
        = [\<lparr>Product_id = 1, Product_name = ''Red'', Product_price = 10\<rparr>,
           \<lparr>Product_id = 2, Product_name = ''Blue'', Product_price = 20\<rparr>,
           \<lparr>Product_id = 4, Product_name = ''Black'', Product_price = 40\<rparr>] \<and>
      1 \<le> length (Order_products d' (single_order 0)) \<and>
      length (Order_products d' (single_order 0)) \<le> 3 \<and>
      distinct (Order_products d' (single_order 0)) \<and>
      distinct (map Product_id (Order_products d' (single_order 0))))"
proof -
  let ?rows = "[\<lparr>order_id = 1, product_id = 1\<rparr>, \<lparr>order_id = 1, product_id = 2\<rparr>,
                \<lparr>order_id = 1, product_id = 4\<rparr>]"
  let ?d' = "catalogue_database\<lparr>order_product_table := ?rows\<rparr>"
  have schema: "schema_constraints catalogue_database"
    by (simp add: schema_constraints_def catalogue_database_def busy_database_def
        single_order_def alice_def)
  have fresh: "Order_products catalogue_database (single_order 0) = []"
    by (simp add: Order_products_def catalogue_database_def)
  have table: "Product_table catalogue_database
      = [\<lparr>Product_id = 1, Product_name = ''Red'', Product_price = 10\<rparr>,
         \<lparr>Product_id = 2, Product_name = ''Blue'', Product_price = 20\<rparr>,
         \<lparr>Product_id = 3, Product_name = ''Green'', Product_price = 30\<rparr>,
         \<lparr>Product_id = 4, Product_name = ''Black'', Product_price = 40\<rparr>]"
    and orders: "Order_table catalogue_database = [single_order 0]"
    and rows: "order_product_table catalogue_database = []"
    by (simp_all add: catalogue_database_def busy_database_def)
  have oid: "Order_id (single_order 0) = 1"
    by (simp add: single_order_def)
  have ext: "extend_products catalogue_database (single_order 0) ps
      = map (\<lambda>p. \<lparr>order_id = 1, product_id = Product_id p\<rparr>) ps" for ps
    by (simp add: extend_products_map fresh oid)
  have run: "add_order_products eager_chance catalogue_database = Inr ?d'"
    by (simp add: add_order_products_def table orders rows eager_purchase ext
        insert_order_product_def)
  have mem: "single_order 0 \<in> set (Order_table ?d')"
    by (simp add: catalogue_database_def busy_database_def)
  have products: "Order_products ?d' (single_order 0)
      = [\<lparr>Product_id = 1, Product_name = ''Red'', Product_price = 10\<rparr>,
         \<lparr>Product_id = 2, Product_name = ''Blue'', Product_price = 20\<rparr>,
         \<lparr>Product_id = 4, Product_name = ''Black'', Product_price = 40\<rparr>]"
    by (simp add: Order_products_def catalogue_database_def busy_database_def single_order_def)
  from linked_orders_have_distinct_products [OF schema run mem] schema fresh run mem products
  show ?thesis by simp
qed

subsection \<open>The generator runs through\<close>

lemma empty_database_schema: "schema_constraints empty_database"
  by (simp add: schema_constraints_def empty_database_def)

lemma add_customers_schema:
  "schema_constraints d \<Longrightarrow> add_customers ch d = Inr d' \<Longrightarrow> schema_constraints d'"
  unfolding add_customers_def
  by (rule commit_invariant [where P = schema_constraints and ins = insert_customer])
     (auto intro: insert_customer_schema)

lemma add_orders_schema:
  assumes "schema_constraints d" and "add_orders ch d = Inr d'"
  shows "schema_constraints d'"
proof -
  from assms(2) obtain pending where "commit insert_order pending d = Inr d'"
    by (auto simp: add_orders_def Let_def split: sum.splits)
  with assms(1) show ?thesis
    by (rule commit_invariant [where P = schema_constraints and ins = insert_order, rotated])
       (auto intro: insert_order_schema)
qed

lemma add_products_schema:
  "schema_constraints d \<Longrightarrow> add_products ch d = Inr d' \<Longrightarrow> schema_constraints d'"
  unfolding add_products_def
  by (rule commit_invariant [where P = schema_constraints and ins = insert_product])
     (auto intro: insert_product_schema)

lemma add_order_products_schema:
  assumes "schema_constraints d" and "add_order_products ch d = Inr d'"
  shows "schema_constraints d'"
proof -
  from assms(2) obtain rows where "commit insert_order_product rows d = Inr d'"
    by (auto simp: add_order_products_def Let_def split: sum.splits)
  with assms(1) show ?thesis
    by (rule commit_invariant [where P = schema_constraints and ins = insert_order_product, rotated])
       (auto intro: insert_order_product_schema)
qed

lemma commit_insert_customer_succeeds:
  "distinct (map email pending) \<Longrightarrow>
   set (map email pending) \<inter> set (map Customer_email (Customer_table d)) = {} \<Longrightarrow>
   \<exists>d'. commit insert_customer pending d = Inr d'"
proof (induction pending arbitrary: d)
  case Nil
  show ?case by simp
next
  case (Cons c pending)
  let ?d1 = "d\<lparr>Customer_table := Customer_table d @
             [\<lparr>Customer_id = next_id (map Customer_id (Customer_table d)),
               Customer_first_name = first_name c, Customer_last_name = last_name c,
               Customer_address = address c, Customer_city = city c,
               Customer_postcode = postcode c, Customer_email = email c\<rparr>]\<rparr>"
  from Cons.prems(2) have d1: "insert_customer d c = Inr ?d1"
    by (auto simp: insert_customer_def)
  from Cons.prems have "distinct (map email pending)"
    and "set (map email pending) \<inter> set (map Customer_email (Customer_table ?d1)) = {}"
    by auto
  from Cons.IH [OF this] d1 show ?case by simp
qed

lemma commit_insert_product_succeeds:
  "distinct (map name pending) \<Longrightarrow>
   set (map name pending) \<inter> set (map Product_name (Product_table d)) = {} \<Longrightarrow>
   \<exists>d'. commit insert_product pending d = Inr d' \<and>
        length (Product_table d') = length (Product_table d) + length pending"
proof (induction pending arbitrary: d)
  case Nil
  show ?case by simp
next
  case (Cons p pending)
  let ?d1 = "d\<lparr>Product_table := Product_table d @
             [\<lparr>Product_id = next_id (map Product_id (Product_table d)),
               Product_name = name p, Product_price = price p\<rparr>]\<rparr>"
  from Cons.prems(2) have d1: "insert_product d p = Inr ?d1"
    by (auto simp: insert_product_def)
  from Cons.prems have "distinct (map name pending)"
    and "set (map name pending) \<inter> set (map Product_name (Product_table ?d1)) = {}"
    by auto
  from Cons.IH [OF this] d1 show ?case by auto
qed

lemma commit_insert_order_product_succeeds:
  "distinct rows \<Longrightarrow> set rows \<inter> set (order_product_table d) = {} \<Longrightarrow>
   \<exists>d'. commit insert_order_product rows d = Inr d'"
proof (induction rows arbitrary: d)
  case Nil
  show ?case by simp
next
  case (Cons r rows)
  let ?d1 = "d\<lparr>order_product_table := order_product_table d @ [r]\<rparr>"
  from Cons.prems(2) have d1: "insert_order_product d r = Inr ?d1"
    by (auto simp: insert_order_product_def)
  from Cons.prems have "distinct rows"
    and "set rows \<inter> set (order_product_table ?d1) = {}"
    by auto
  from Cons.IH [OF this] d1 show ?case by simp
qed

lemma extend_products_rows:
  "r \<in> set (extend_products d ord ps) \<Longrightarrow>
   order_id r = Order_id ord \<and>
   (\<exists>p \<in> set ps. product_id r = Product_id p \<and> p \<notin> set (Order_products d ord))"
  by (auto simp: extend_products_def)

lemma extend_products_distinct:
  "distinct (map Product_id ps) \<Longrightarrow> distinct (extend_products d ord ps)"
proof -
  assume "distinct (map Product_id ps)"
  then have "distinct (map Product_id (filter (\<lambda>p. p \<notin> set (Order_products d ord)) ps))"
    by (rule distinct_map_filter)
  then have "distinct (map (\<lambda>p. \<lparr>order_id = Order_id ord, product_id = Product_id p\<rparr>)
      (filter (\<lambda>p. p \<notin> set (Order_products d ord)) ps))"
    by (auto simp: distinct_map inj_on_def)
  then show ?thesis by (simp only: extend_products_map)
qed

lemma extend_products_new:
  assumes "r \<in> set (extend_products d ord ps)" and "set ps \<subseteq> set (Product_table d)"
  shows "r \<notin> set (order_product_table d)"
proof
  assume stored: "r \<in> set (order_product_table d)"
  from extend_products_rows [OF assms(1)] obtain p where
    r: "order_id r = Order_id ord" "product_id r = Product_id p"
    and p: "p \<in> set ps" "p \<notin> set (Order_products d ord)"
    by blast
  from p(1) assms(2) have "p \<in> set (Product_table d)" by auto
  with stored r have "p \<in> set (Order_products d ord)"
    by (force simp: Order_products_def)
  with p(2) show False by simp
qed

lemma extended_rows_distinct:
  "distinct (map (\<lambda>e. Order_id (fst e)) extended) \<Longrightarrow>
   (\<And>e. e \<in> set extended \<Longrightarrow> distinct (map Product_id (snd e))) \<Longrightarrow>
   distinct (concat (map (\<lambda>(ord, purchased_products). extend_products d ord purchased_products)
      extended))"
proof (induction extended)
  case Nil
  show ?case by simp
next
  case (Cons e extended)
  obtain ord ps where e: "e = (ord, ps)" by (cases e)
  from Cons.prems(2) [of e] e have "distinct (extend_products d ord ps)"
    by (simp add: extend_products_distinct)
  moreover from Cons have "distinct (concat (map (\<lambda>(ord, purchased_products).
      extend_products d ord purchased_products) extended))"
    by simp
  moreover have "set (extend_products d ord ps) \<inter>
      set (concat (map (\<lambda>(ord, purchased_products).
        extend_products d ord purchased_products) extended)) = {}"
  proof (rule ccontr)
    assume "\<not> ?thesis"
    then obtain r e' where r: "r \<in> set (extend_products d ord ps)"
      and e': "e' \<in> set extended" "r \<in> set (extend_products d (fst e') (snd e'))"
      by (auto simp: case_prod_unfold)
    from extend_products_rows [OF r] extend_products_rows [OF e'(2)]
    have "Order_id (fst e') = Order_id ord" by simp
    moreover from Cons.prems(1) e'(1) have "Order_id (fst e') \<noteq> Order_id (fst e)"
      by (rule distinct_map_head [where key = "\<lambda>e. Order_id (fst e)"])
    then have "Order_id (fst e') \<noteq> Order_id ord"
      by (simp add: e)
    ultimately show False by simp
  qed
  ultimately show ?case using e by simp
qed

lemma add_order_products_succeeds:
  assumes "schema_constraints d" and "3 \<le> length (Product_table d)"
  shows "\<exists>d'. add_order_products ch d = Inr d'"
proof -
  let ?products = "Product_table d"
  let ?body = "\<lambda>(i, ord). case purchase ch ?products i of
               Inl e \<Rightarrow> Inl e | Inr purchased_products \<Rightarrow> Inr (ord, purchased_products)"
  let ?rows = "\<lambda>(ord, purchased_products). extend_products d ord purchased_products"
  have "\<exists>y. ?body x = Inr y" for x :: "nat \<times> Order"
    using purchase_succeeds [OF assms(2), of ch "fst x"] by (cases x) auto
  with for_each_succeeds [of "enumerate 0 (Order_table d)" ?body]
  obtain extended where loop: "for_each ?body (enumerate 0 (Order_table d)) = Inr extended"
    by blast
  then have "list_all2 (\<lambda>(i, ord) e. (case purchase ch ?products i of
               Inl err \<Rightarrow> Inl err | Inr purchased_products \<Rightarrow> Inr (ord, purchased_products)) = Inr e)
             (enumerate 0 (Order_table d)) extended"
    by (simp add: for_each_Inr case_prod_unfold)
  from loop_of_add_order_products [OF this] have
    firsts: "map fst extended = Order_table d"
    and sampled: "\<forall>e \<in> set extended. \<exists>i. purchase ch ?products i = Inr (snd e)"
    by simp_all
  from assms(1) have ids: "distinct (map Order_id (Order_table d))"
    and pids: "distinct (map Product_id ?products)"
    by (simp_all add: schema_constraints_def)
  have "map (\<lambda>e. Order_id (fst e)) extended = map Order_id (map fst extended)"
    by simp
  with ids firsts have key: "distinct (map (\<lambda>e. Order_id (fst e)) extended)"
    by simp
  have each: "distinct (map Product_id (snd e)) \<and> set (snd e) \<subseteq> set ?products"
    if "e \<in> set extended" for e
  proof -
    from that sampled obtain i where "purchase ch ?products i = Inr (snd e)" by blast
    from purchase_Inr [OF this] have "mset (snd e) \<subseteq># mset ?products" by simp
    from sub_mset_distinct_ids [OF this pids] show ?thesis .
  qed
  from key each have "distinct (concat (map ?rows extended))"
    by (intro extended_rows_distinct) simp_all
  moreover have "set (concat (map ?rows extended)) \<inter> set (order_product_table d) = {}"
  proof (rule ccontr)
    assume "\<not> ?thesis"
    then obtain r e where "e \<in> set extended" "r \<in> set (extend_products d (fst e) (snd e))"
      and stored: "r \<in> set (order_product_table d)"
      by (auto simp: case_prod_unfold)
    with each [of e] extend_products_new [of r d "fst e" "snd e"] show False
      by simp
  qed
  ultimately obtain d' where "commit insert_order_product (concat (map ?rows extended)) d = Inr d'"
    using commit_insert_order_product_succeeds by blast
  with loop show ?thesis
    by (auto simp: add_order_products_def Let_def)
qed


lemma replicate_rounds_distinct: "distinct (map (\<lambda>i. replicate i c) [0..<n])"
proof -
  have "inj_on (\<lambda>i. replicate i c) (set [0..<n])"
    by (rule inj_onI) (auto dest: arg_cong [where f = length])
  then show ?thesis by (simp add: distinct_map)
qed

lemma add_customers_products:
  "add_customers ch d = Inr d' \<Longrightarrow> Product_table d' = Product_table d"
  unfolding add_customers_def
  by (rule commit_invariant [where P = "\<lambda>x. Product_table x = Product_table d"
        and ins = insert_customer])
     (auto simp: insert_customer_def split: if_splits)

lemma add_orders_products:
  assumes "add_orders ch d = Inr d'"
  shows "Product_table d' = Product_table d"
proof -
  from assms obtain pending where "commit insert_order pending d = Inr d'"
    by (auto simp: add_orders_def Let_def split: sum.splits)
  then show ?thesis
    by (rule commit_invariant [where P = "\<lambda>x. Product_table x = Product_table d", rotated 2])
       (auto simp: insert_order_def)
qed

text \<open>Under the example of chance the whole generator completes on the empty database.\<close>

theorem seeded_database_has_100_customers_witness:
  "\<exists>d'. create_random_data steady_chance empty_database = Inr d' \<and>
      customer_count d' = 100 \<and>
      stdout (how_many_customers d') = [PyStr ''How many customers?'', PyInt 100]"
proof -
  have "distinct (map email (map (customer_round steady_chance) [0..<100]))"
    using replicate_rounds_distinct [of "CHR ''a''" 100]
    by (simp add: steady_chance_def o_def del: upt_Suc)
  moreover have "set (map email (map (customer_round steady_chance) [0..<100]))
      \<inter> set (map Customer_email (Customer_table empty_database)) = {}"
    by (simp add: empty_database_def)
  ultimately obtain d1 where d1: "add_customers steady_chance empty_database = Inr d1"
    unfolding add_customers_def using commit_insert_customer_succeeds by blast
  from add_customers_schema [OF empty_database_schema d1] have schema1: "schema_constraints d1" .
  from add_customers_count [OF d1] have "Customer_table d1 \<noteq> []"
    by auto
  from add_orders_succeeds [OF this] obtain d2 where d2: "add_orders steady_chance d1 = Inr d2"
    by blast
  from add_orders_schema [OF schema1 d2] have schema2: "schema_constraints d2" .
  from add_customers_products [OF d1] add_orders_products [OF d2]
  have none: "Product_table d2 = []"
    by (simp add: empty_database_def)
  have "distinct (map name (map (\<lambda>i. make_product (product_round steady_chance i)) [0..<10]))"
    using replicate_rounds_distinct [of "CHR ''c''" 10]
    by (simp add: steady_chance_def make_product_def o_def del: upt_Suc)
  moreover from none have
    "set (map name (map (\<lambda>i. make_product (product_round steady_chance i)) [0..<10]))
      \<inter> set (map Product_name (Product_table d2)) = {}"
    by simp
  ultimately obtain d3 where d3: "add_products steady_chance d2 = Inr d3"
    and "length (Product_table d3) = length (Product_table d2) + 10"
    unfolding add_products_def using commit_insert_product_succeeds
    by (metis length_map length_upt minus_nat.diff_0)
  then have enough: "3 \<le> length (Product_table d3)" by simp
  from add_products_schema [OF schema2 d3] have "schema_constraints d3" .
  from add_order_products_succeeds [OF this enough]
  obtain d' where d4: "add_order_products steady_chance d3 = Inr d'"
    by blast
  from d1 d2 d3 d4 have run: "create_random_data steady_chance empty_database = Inr d'"
    by (simp add: create_random_data_def create_all_def)
  from seeded_database_has_100_customers [OF run] run show ?thesis
    by blast
qed

end
